theory Spec2Isabelle
  imports Complex_Main "HOL-Library.Product_Lexorder"
begin

section \<open>PitchMate-AI: scripted interview, segment router and length governor\<close>

text \<open>
  A shallow embedding of \<^verbatim>\<open>graph/script_catalog.py\<close>, \<^verbatim>\<open>graph/nodes_script.py\<close>,
  \<^verbatim>\<open>graph/router.py\<close> and \<^verbatim>\<open>graph/length_control.py\<close>.

  Python's \<^verbatim>\<open>str\<close> is a sequence of code points, and the length governor counts and cuts
  code points, so text is a list of code points (\<open>ustr\<close>). Identifiers that the code only
  compares for equality or uses as dictionary keys (slot ids, section names, segment names,
  payload keys, provenance tags) are Isabelle strings. \<open>u\<close> turns an ASCII literal into text.
\<close>

type_synonym ustr = "int list"

definition u :: "string \<Rightarrow> ustr" where
  "u s = map of_char s"

datatype py_error = KeyError | ValueError | OverflowError | TypeError

text \<open>
  A value as the request model hands it to the code: the field \<^verbatim>\<open>script_progress\<close> is a
  \<^verbatim>\<open>Dict[str, Any]\<close>, so what stands under a key is any JSON value. A float is a finite
  number, an infinity or a NaN.
\<close>

datatype pyfloat = Finite rat | PosInfinity | NegInfinity | NotANumber

datatype json =
    JNull
  | JBool bool
  | JInt int
  | JFloat pyfloat
  | JStr string
  | JList "json list"
  | JDict "(string \<times> json) list"

subsection \<open>Builtins of Python's str and re that the code uses\<close>

text \<open>\<^verbatim>\<open>str.isspace\<close> and the class \<^verbatim>\<open>\s\<close> of a str pattern: the same 29 code points.\<close>

definition is_space :: "int \<Rightarrow> bool" where
  "is_space c = (c \<in> set [9, 10, 11, 12, 13, 28, 29, 30, 31, 32, 133, 160, 5760, 8192, 8193, 8194,
     8195, 8196, 8197, 8198, 8199, 8200, 8201, 8202, 8232, 8233, 8239, 8287, 12288])"

definition lstrip :: "ustr \<Rightarrow> ustr" where
  "lstrip s = dropWhile is_space s"

definition rstrip :: "ustr \<Rightarrow> ustr" where
  "rstrip s = rev (dropWhile is_space (rev s))"

definition strip :: "ustr \<Rightarrow> ustr" where
  "strip s = rstrip (lstrip s)"

text \<open>\<^verbatim>\<open>pat in s\<close>: \<open>pat\<close> occurs in \<open>s\<close> as a contiguous run.\<close>

fun startswith :: "'a list \<Rightarrow> 'a list \<Rightarrow> bool" where
  "startswith s [] = True"
| "startswith [] (p # ps) = False"
| "startswith (c # cs) (p # ps) = (c = p \<and> startswith cs ps)"

fun py_in :: "'a list \<Rightarrow> 'a list \<Rightarrow> bool" where
  "py_in pat [] = (pat = [])"
| "py_in pat (c # cs) = (startswith (c # cs) pat \<or> py_in pat cs)"

text \<open>\<^verbatim>\<open>xs.index(x)\<close>: the first position of \<open>x\<close>; \<open>None\<close> stands for the ValueError.\<close>

fun py_index :: "'a list \<Rightarrow> 'a \<Rightarrow> nat option" where
  "py_index [] x = None"
| "py_index (y # ys) x = (if y = x then Some 0 else map_option Suc (py_index ys x))"

text \<open>
  \<^verbatim>\<open>re.finditer\<close> for the patterns of this program, which are all built from character
  classes: \<open>m s\<close> is the length of the match that starts at the head of \<open>s\<close> (0 when there is
  none). The scan reports the spans \<open>(start, end)\<close> from left to right and resumes at the end
  of each match.
\<close>

function finditer :: "(ustr \<Rightarrow> nat) \<Rightarrow> nat \<Rightarrow> ustr \<Rightarrow> (nat \<times> nat) list" where
  "finditer m i [] = []"
| "finditer m i (c # cs) =
     (let n = m (c # cs) in
      if n = 0 then finditer m (Suc i) cs
      else (i, i + n) # finditer m (i + n) (drop n (c # cs)))"
  by pat_completeness auto
termination
  by (relation "measure (\<lambda>(m, i, s). length s)") auto

text \<open>\<^verbatim>\<open>re.sub(pattern, " ", s)\<close> for a pattern given by its matcher.\<close>

function re_sub_space :: "(ustr \<Rightarrow> nat) \<Rightarrow> ustr \<Rightarrow> ustr" where
  "re_sub_space m [] = []"
| "re_sub_space m (c # cs) =
     (let n = m (c # cs) in
      if n = 0 then c # re_sub_space m cs
      else 32 # re_sub_space m (drop n (c # cs)))"
  by pat_completeness auto
termination
  by (relation "measure (\<lambda>(m, s). length s)") auto

subsection \<open>script\_catalog.py: the catalog\<close>

definition A_ORDER :: "string list" where
  "A_ORDER = [''A1_problem'', ''A2_pain'', ''A3_reason'', ''A4_unmet'']"

definition B_ORDER :: "string list" where
  "B_ORDER = [''B1_core_service'', ''B2_value'', ''B3_features'', ''B4_diff'', ''B5_edge'']"

definition C_ORDER :: "string list" where
  "C_ORDER = [''C1_consumer'', ''C2_alternatives'', ''C3_paincases'', ''C4_market_size'',
     ''C5_competitors'', ''C6_customer_traits'', ''C7_issues'']"

definition D_ORDER :: "string list" where
  "D_ORDER = [''D1_revenue_sources'', ''D2_model'', ''D3_segments'', ''D4_resources'', ''D5_extensions'',
     ''D6_diff'', ''D7_go_to_market'', ''D8_activation'', ''D9_kpi'', ''D10_trust'']"

definition SECTION_ORDER :: "(string \<times> string list) list" where
  "SECTION_ORDER = [(''A'', A_ORDER), (''B'', B_ORDER), (''C'', C_ORDER), (''D'', D_ORDER)]"

definition QUESTIONS :: "(string \<times> ustr) list" where
  "QUESTIONS = [
     (''A1_problem'',
      [45817, 49888, 51060, 32, 51452, 47785, 54620, 32, 47928, 51228, 45208, 32, 49352, 47196, 50868,
      32, 44592, 54924, 45716, 32, 47924, 50631, 51064, 44032, 50836, 63]),
     (''A2_pain'',
      [54788, 51116, 32, 44032, 51109, 32, 48512, 51313, 54616, 44144, 45208, 32, 48520, 54200, 54620,
      32, 51216, 51008, 32, 47924, 50631, 51060, 46972, 32, 48372, 45208, 50836, 63]),
     (''A3_reason'',
      [51060, 32, 51452, 51228, 47484, 32, 49440, 53469, 54620, 32, 44228, 44592, 40, 49884, 51109,
      32, 48516, 50948, 44592, 44, 32, 44060, 51064, 44221, 54744, 44, 32, 53944, 47116, 46300, 32,
      46321, 41, 44032, 32, 51080, 45208, 50836, 63]),
     (''A4_unmet'',
      [44592, 51316, 32, 49884, 51109, 50640, 49436, 32, 48120, 52649, 51313, 46108, 32, 44256, 44061,
      32, 45768, 51592, 45716, 32, 47924, 50631, 51060, 46972, 44256, 32, 49373, 44033, 54616, 49884,
      45208, 50836, 63]),
     (''B1_core_service'',
      [51228, 44277, 54624, 32, 54645, 49900, 32, 49436, 48708, 49828, 47, 44221, 54744, 51008, 32,
      47924, 50631, 51064, 44032, 50836, 63, 32, 40, 50696, 58, 32, 52488, 48372, 51088, 32, 47582,
      52644, 32, 44053, 49845, 43, 51109, 48708, 32, 50696, 50557, 32, 53685, 54633, 44, 32, 50504,
      51204, 47, 48372, 54744, 32, 51088, 46041, 32, 50672, 46041, 32, 46321, 41]),
     (''B2_value'',
      [50864, 47532, 32, 49436, 48708, 49828, 44032, 32, 51228, 44277, 54616, 45716, 32, 39, 44221,
      54744, 47, 44032, 52824, 39, 45716, 32, 47924, 50631, 51064, 44032, 50836, 63]),
     (''B3_features'',
      [54645, 49900, 32, 49436, 48708, 49828, 47, 51228, 54408, 47, 44592, 45733, 51008, 32, 47924,
      50631, 51064, 44032, 50836, 63]),
     (''B4_diff'',
      [44221, 51137, 49324, 50752, 51032, 32, 52264, 48324, 54868, 32, 54252, 51064, 53944, 45716, 63]),
     (''B5_edge'',
      [44221, 51137, 49324, 48372, 45796, 32, 45908, 32, 50864, 50900, 54620, 32, 51216, 47, 54620,
      44228, 51216, 32, 49, 44032, 51648, 45716, 63]),
     (''C1_consumer'',
      [49345, 54408, 32, 49548, 48708, 51088, 51032, 32, 53945, 51669, 40, 50672, 47161, 44, 32,
      46041, 44592, 44, 32, 51648, 50669, 49457, 32, 46321, 41, 51012, 32, 50508, 44256, 32, 51080,
      45208, 50836, 63]),
     (''C2_alternatives'',
      [44592, 51316, 32, 48708, 49847, 54620, 32, 50728, 46972, 51064, 47, 50724, 54532, 46972, 51064,
      32, 49436, 48708, 49828, 45716, 63, 32, 52264, 48324, 54868, 32, 54596, 50836, 49457, 51008, 63]),
     (''C3_paincases'',
      [44256, 44061, 51060, 32, 44592, 51316, 32, 49436, 48708, 49828, 50640, 49436, 32, 44202, 45716,
      32, 48520, 54200, 32, 49324, 47168, 45716, 63]),
     (''C4_market_size'',
      []),
     (''C5_competitors'',
      [45824, 54364, 51201, 51064, 32, 44221, 51137, 32, 49436, 48708, 49828, 40, 54540, 47019, 54268,
      47, 50868, 50689, 32, 50629, 52404, 41, 45716, 32, 47924, 50631, 51060, 44256, 44, 32, 44053,
      51216, 47, 50557, 51216, 51008, 63]),
     (''C6_customer_traits'',
      [44256, 44061, 40, 51060, 50857, 51088, 41, 51032, 32, 51452, 50836, 32, 53945, 49457, 40,
      50672, 47161, 44, 32, 44032, 51313, 47, 51649, 51109, 51064, 44, 32, 50668, 54665, 32, 49828,
      53440, 51068, 32, 46321, 41, 51012, 32, 50612, 46523, 44172, 32, 48372, 45208, 50836, 63]),
     (''C7_issues'',
      [54644, 45817, 32, 48516, 50556, 51032, 32, 51452, 50836, 32, 51060, 49800, 45208, 32, 45768,
      51592, 46020, 32, 54028, 50501, 46104, 50612, 32, 51080, 45208, 50836, 63]),
     (''D1_revenue_sources'',
      [49324, 50629, 51032, 32, 51452, 50836, 32, 49688, 51061, 50896, 51008, 32, 47924, 50631, 51064,
      44032, 50836, 63, 32, 40, 50696, 58, 32, 50696, 50557, 49688, 49688, 47308, 44, 32, 51109,
      48708, 47116, 53560, 44, 32, 47716, 48260, 49901, 44, 32, 44305, 44256, 32, 46321, 41]),
     (''D2_model'',
      [49688, 51061, 32, 47784, 45944, 51008, 32, 47924, 50631, 51064, 44032, 50836, 63, 32, 40,
      48373, 49688, 50696, 50557, 32, 51473, 44060, 44, 32, 51221, 50529, 32, 44396, 46021, 44, 32,
      54980, 44592, 47, 54252, 51064, 53944, 32, 54532, 47196, 44536, 47016, 32, 46321, 41]),
     (''D3_segments'',
      [51452, 50836, 32, 44256, 44061, 52789, 51008, 32, 45572, 44396, 47196, 32, 49444, 51221, 54624,
      32, 44148, 44032, 50836, 63]),
     (''D4_resources'',
      [54596, 50836, 32, 47532, 49548, 49828, 44032, 32, 51080, 45208, 50836, 63]),
     (''D5_extensions'',
      [51109, 44592, 51201, 51004, 47196, 32, 54869, 51109, 32, 44032, 45733, 54620, 32, 52628, 44032,
      32, 44592, 45733, 47, 49436, 48708, 49828, 32, 50500, 51060, 46356, 50612, 44032, 32, 51080,
      45208, 50836, 63]),
     (''D6_diff'',
      [50976, 49324, 32, 49436, 48708, 49828, 50752, 51032, 32, 52264, 48324, 51216, 51008, 32, 47924,
      50631, 51064, 44032, 50836, 63]),
     (''D7_go_to_market'',
      [49884, 51109, 51652, 51077, 32, 48169, 48277, 40, 47560, 52992, 54021, 44, 32, 54861, 48372,
      32, 52292, 45328, 44, 32, 52395, 32, 54028, 53944, 45320, 32, 49440, 51221, 44592, 51456, 32,
      46321, 41, 51008, 63]),
     (''D8_activation'',
      [44256, 44061, 32, 54869, 48372, 47, 54876, 49457, 54868, 32, 51204, 47029, 40, 52964, 48036,
      45768, 54000, 44, 32, 83, 78, 83, 44, 32, 77, 90, 32, 44048, 49457, 32, 46321, 41, 51008, 63]),
     (''D9_kpi'',
      [49457, 44277, 51648, 54364, 40, 75, 80, 73, 41, 47484, 32, 50612, 46523, 44172, 32, 51221,
      54624, 32, 44163, 51064, 51648, 63]),
     (''D10_trust'',
      [49436, 48708, 49828, 32, 54408, 51656, 48372, 51613, 47, 49888, 47280, 54869, 48372, 32, 48169,
      50504, 51008, 63])]"

text \<open>\<^verbatim>\<open>SEG_LABEL\<close>: the key \<open>None\<close> is the entry for an unresolved segment.\<close>

definition SEG_LABEL :: "(string option \<times> ustr) list" where
  "SEG_LABEL = [
     (None, [50668, 54665, 183, 47112, 51200]),
     (Some ''camping'', [52896, 54609, 47, 44544, 47016, 54609]),
     (Some ''experience'', [54788, 51648, 52404, 54744, 47, 50529, 54000, 48708, 54000]),
     (Some ''sports'', [47112, 51200, 32, 49828, 54252, 52768, 40, 49436, 54609, 47, 46321, 49328, 32, 46321, 41])]"

definition KEYWORDS :: "(string \<times> ustr list) list" where
  "KEYWORDS = [
     (''D1_revenue_sources'',
      [[49688, 51061, 50896], [49688, 51061], [47588, 52636], [49688, 49688, 47308], [44396, 46021],
       [44305, 44256], [47716, 48260, 49901], [47116, 53560], [50976, 47308]]),
     (''B1_core_service'',
      [[54645, 49900, 32, 49436, 48708, 49828], [47924, 50631, 51012, 32, 51228, 44277], [44221, 54744,
       32, 51228, 44277], [53685, 54633], [44053, 49845], [50696, 50557]]),
     (''C4_market_size'',
      [[49884, 51109, 32, 44508, 47784], [49457, 51109, 32, 52628, 49464], [53944, 47116, 46300],
       [44508, 47784]]),
     (''B4_diff'',
      [[52264, 48324, 54868], [50864, 50900], [45796, 47492], [44053, 51216], [50557, 51216]])]"

subsection \<open>script\_catalog.py: helpers\<close>

text \<open>
  \<^verbatim>\<open>_norm\<close>. The parameter \<open>nf\<close> stands for the library call
  \<^verbatim>\<open>unicodedata.normalize("NFKC", s).lower()\<close>; every theorem below holds for any such
  function. The class of the first substitution is \<^verbatim>\<open>["'`.,:;()\[\]{}<>~^\-_/\\]\<close>.
\<close>

definition norm_punct :: "int \<Rightarrow> bool" where
  "norm_punct c = (c \<in> set [34, 39, 96, 46, 44, 58, 59, 40, 41, 91, 93, 123, 125, 60, 62, 126, 94,
     45, 95, 47, 92])"

definition m_norm_punct :: "ustr \<Rightarrow> nat" where
  "m_norm_punct s = (case s of [] \<Rightarrow> 0 | c # cs \<Rightarrow> if norm_punct c then 1 else 0)"

definition m_spaces :: "ustr \<Rightarrow> nat" where
  "m_spaces s = length (takeWhile is_space s)"

definition norm_str :: "(ustr \<Rightarrow> ustr) \<Rightarrow> ustr \<Rightarrow> ustr" where
  "norm_str nf s = re_sub_space m_spaces (re_sub_space m_norm_punct (strip (nf s)))"

text \<open>
  A normaliser for concrete runs: on text made of ASCII and precomposed Hangul syllables,
  NFKC changes nothing and \<^verbatim>\<open>lower\<close> maps \<open>A\<close>-\<open>Z\<close> to \<open>a\<close>-\<open>z\<close>.
\<close>

definition nf_basic :: "ustr \<Rightarrow> ustr" where
  "nf_basic s = map (\<lambda>c. if 65 \<le> c \<and> c \<le> 90 then c + 32 else c) s"

definition dict_get :: "('k \<times> 'v) list \<Rightarrow> 'k \<Rightarrow> 'v \<Rightarrow> 'v" where
  "dict_get d k dflt = (case map_of d k of None \<Rightarrow> dflt | Some v \<Rightarrow> v)"

text \<open>
  The lookup of any value in a dictionary whose keys are strings, as \<^verbatim>\<open>d.get(key)\<close> and
  \<^verbatim>\<open>d[key]\<close> start it: the key is hashed first, which raises TypeError for a list or a
  dictionary; a value that is not a string equals no key.
\<close>

definition py_lookup :: "(string \<times> 'v) list \<Rightarrow> json \<Rightarrow> py_error + 'v option" where
  "py_lookup d key =
     (case key of
        JStr k \<Rightarrow> Inr (map_of d k)
      | JList xs \<Rightarrow> Inl TypeError
      | JDict kvs \<Rightarrow> Inl TypeError
      | _ \<Rightarrow> Inr None)"

definition dyn_question :: "string \<Rightarrow> string option \<Rightarrow> ustr" where
  "dyn_question slot_id segment =
     (if slot_id = ''C4_market_size''
      then dict_get SEG_LABEL segment (dict_get SEG_LABEL None []) @
           [32, 49884, 51109, 32, 44508, 47784, 50752, 32, 52572, 44540, 32, 49457, 51109, 32,
            52628, 49464, 50640, 32, 45824, 54644, 32, 50508, 44256, 32, 51080, 45208, 50836, 63]
      else dict_get QUESTIONS slot_id [])"

text \<open>
  A progress dictionary. The caller resubmits it, so its section is whatever JSON value the
  request carries; the index is an integer. \<open>answered\<close> is a list in the source, but the code
  only ever reads it through \<^verbatim>\<open>set(...)\<close> and writes it back as \<^verbatim>\<open>list(set)\<close>, whose
  order Python leaves open; so it is a set here.
\<close>

record progress =
  sect :: json
  index :: int
  answered :: "string set"

definition first_progress :: progress where
  "first_progress = \<lparr>sect = JStr ''A'', index = 0, answered = {}\<rparr>"

text \<open>
  \<^verbatim>\<open>next_progress\<close>: \<^verbatim>\<open>SECTION_ORDER[section]\<close> raises TypeError for an unhashable section
  and KeyError for any other value that is no section name. The \<^verbatim>\<open>try\<close> around
  \<^verbatim>\<open>flow[flow.index(section) + 1]\<close> turns both the ValueError of \<^verbatim>\<open>index\<close> and the
  IndexError past the end of \<open>flow\<close> into \<open>None\<close>.
\<close>

definition flow :: "string list" where
  "flow = [''A'', ''B'', ''C'', ''D'']"

definition next_progress :: "progress \<Rightarrow> py_error + progress option" where
  "next_progress p =
     (case py_lookup SECTION_ORDER (sect p) of
        Inl e \<Rightarrow> Inl e
      | Inr None \<Rightarrow> Inl KeyError
      | Inr (Some order) \<Rightarrow>
          (let index' = index p + 1 in
           if index' < int (length order) then Inr (Some (p\<lparr>index := index'\<rparr>))
           else (case py_index (map JStr flow) (sect p) of
                   None \<Rightarrow> Inr None
                 | Some i \<Rightarrow>
                     if Suc i < length flow
                     then Inr (Some \<lparr>sect = JStr (flow ! Suc i), index = 0, answered = answered p\<rparr>)
                     else Inr None)))"

record question =
  qid :: string
  qtext :: ustr

text \<open>
  \<^verbatim>\<open>current_question\<close>: \<^verbatim>\<open>SECTION_ORDER.get(section)\<close> is \<open>None\<close> for a hashable value that
  is no section name, and raises TypeError for a list or a dictionary.
\<close>

definition current_question :: "progress \<Rightarrow> string option \<Rightarrow> py_error + question option" where
  "current_question p segment =
     (case py_lookup SECTION_ORDER (sect p) of
        Inl e \<Rightarrow> Inl e
      | Inr None \<Rightarrow> Inr None
      | Inr (Some order) \<Rightarrow>
          if order = [] \<or> index p < 0 \<or> index p \<ge> int (length order) then Inr None
          else (let slot_id = order ! nat (index p);
                    text = (if dyn_question slot_id segment \<noteq> [] then dyn_question slot_id segment
                            else dict_get QUESTIONS slot_id [])
                in if text = [] then Inr None else Inr (Some \<lparr>qid = slot_id, qtext = text\<rparr>)))"

definition score_slot :: "(ustr \<Rightarrow> ustr) \<Rightarrow> ustr \<Rightarrow> string \<Rightarrow> nat" where
  "score_slot nf user_text slot_id =
     (if user_text = [] then 0
      else length (filter (\<lambda>kw. py_in (norm_str nf kw) (norm_str nf user_text))
                          (dict_get KEYWORDS slot_id [])))"

text \<open>
  \<^verbatim>\<open>sorted(xs, key=k, reverse=True)\<close>: a stable sort in descending key order; CPython
  reverses the list, sorts it stably in ascending order and reverses the result, so equal keys
  keep their original order.
\<close>

definition sorted_reverse :: "('a \<Rightarrow> nat) \<Rightarrow> 'a list \<Rightarrow> 'a list" where
  "sorted_reverse k xs = rev (sort_key k (rev xs))"

definition remaining :: "progress \<Rightarrow> string list \<Rightarrow> string list" where
  "remaining p order =
     filter (\<lambda>sid. sid \<notin> answered p \<and>
                    (case py_index order sid of None \<Rightarrow> False | Some i \<Rightarrow> int i \<ge> index p + 1))
            order"

definition choose_next_progress ::
  "(ustr \<Rightarrow> ustr) \<Rightarrow> progress \<Rightarrow> ustr \<Rightarrow> py_error + progress option" where
  "choose_next_progress nf p user_text =
     (case py_lookup SECTION_ORDER (sect p) of
        Inl e \<Rightarrow> Inl e
      | Inr found \<Rightarrow>
          (let order = (case found of None \<Rightarrow> [] | Some slots \<Rightarrow> slots) in
           if order = [] then next_progress p
           else (case sorted_reverse (score_slot nf user_text) (remaining p order) of
                   [] \<Rightarrow> next_progress p
                 | top_sid # rest \<Rightarrow>
                     if score_slot nf user_text top_sid > 0
                     then (case py_index order top_sid of
                             None \<Rightarrow> Inl ValueError
                           | Some i \<Rightarrow> Inr (Some (p\<lparr>index := int i\<rparr>)))
                     else next_progress p)))"

subsection \<open>nodes\_script.py: one turn of the interview\<close>

text \<open>
  The part of \<^verbatim>\<open>GraphState\<close> that the node reads and writes: the turns, the parameters
  \<^verbatim>\<open>script_progress\<close>, \<^verbatim>\<open>last_slot\<close> and \<^verbatim>\<open>segment\<close>, the keys \<^verbatim>\<open>isOnTopic\<close> and
  \<^verbatim>\<open>segment\<close> of \<^verbatim>\<open>outputs["domain"]\<close> (\<open>None\<close> for an absent key), and
  \<^verbatim>\<open>outputs["script"]\<close>. The node assigns \<^verbatim>\<open>progress["answered"]\<close> in the caller's
  dictionary, so the parameter \<open>script_progress\<close> of the returned state carries that update.
\<close>

record turn =
  role :: string
  content :: ustr

datatype script_output =
    Notice ustr
  | Ask ustr string json progress
  | End ustr

record script_state =
  turns :: "turn list"
  script_progress :: "progress option"
  last_slot :: "string option"
  param_segment :: "string option"
  domain_isOnTopic :: "bool option"
  domain_segment :: "string option"
  script :: "script_output option"

definition NOTICE_MESSAGE :: ustr where
  "NOTICE_MESSAGE = [51060, 32, 52311, 48391, 51008, 32, 50668, 54665, 183, 47112, 51200, 40, 52896, 54609, 47,
     52404, 54744, 47, 49828, 54252, 52768, 41, 32, 51204, 50857, 51077, 45768, 45796, 46, 32,
     50896, 54616, 45716, 32, 49464, 44536, 47676, 53944, 47484, 32, 50508, 47140, 51452, 49464,
     50836, 46, 32, 50696, 41, 32, 34, 52896, 54609, 51004, 47196, 32, 54624, 47000, 50836, 34]"

definition END_MESSAGE :: ustr where
  "END_MESSAGE = [47784, 46304, 32, 54645, 49900, 32, 51656, 47928, 51012, 32, 49688, 51665, 54664, 49845,
     45768, 45796, 46, 32, 50896, 54616, 49884, 47732, 32, 50836, 50557, 51060, 45208, 32, 49324,
     50629, 44228, 54925, 49436, 32, 52488, 50504, 51012, 32, 49373, 49457, 54644, 32, 46300,
     47540, 44172, 50836, 46]"

fun last_user_text :: "turn list \<Rightarrow> ustr" where
  "last_user_text ts = (case filter (\<lambda>t. role t = ''user'') (rev ts) of [] \<Rightarrow> [] | t # _ \<Rightarrow> content t)"

definition get_segment :: "script_state \<Rightarrow> string option" where
  "get_segment st =
     (case domain_segment st of
        Some seg \<Rightarrow> if seg \<noteq> [] then Some seg else param_segment st
      | None \<Rightarrow> param_segment st)"

text \<open>
  Step 2 of the node: \<^verbatim>\<open>nxt = choose_next_progress(...) or next_progress(...)\<close>, and the
  progress stays as it is when \<open>nxt\<close> is \<open>None\<close>.
\<close>

definition advance :: "(ustr \<Rightarrow> ustr) \<Rightarrow> progress \<Rightarrow> ustr \<Rightarrow> py_error + progress" where
  "advance nf p user_text =
     (case choose_next_progress nf p user_text of
        Inl e \<Rightarrow> Inl e
      | Inr (Some nxt) \<Rightarrow> Inr nxt
      | Inr None \<Rightarrow>
          (case next_progress p of
             Inl e \<Rightarrow> Inl e
           | Inr (Some nxt) \<Rightarrow> Inr nxt
           | Inr None \<Rightarrow> Inr p))"

text \<open>
  Steps 3 and 4 of the node, and the node. Both calls of \<^verbatim>\<open>current_question\<close> stand outside
  any \<^verbatim>\<open>try\<close>, so what they raise leaves the node.
\<close>

definition ask_or_end :: "script_state \<Rightarrow> progress \<Rightarrow> py_error + script_state" where
  "ask_or_end st p =
     (case current_question p (get_segment st) of
        Inl e \<Rightarrow> Inl e
      | Inr None \<Rightarrow> Inr (st\<lparr>script := Some (End END_MESSAGE)\<rparr>)
      | Inr (Some q) \<Rightarrow> Inr (st\<lparr>script := Some (Ask (qtext q) (qid q) (sect p) p)\<rparr>))"

definition script_qna_node :: "(ustr \<Rightarrow> ustr) \<Rightarrow> script_state \<Rightarrow> py_error + script_state" where
  "script_qna_node nf st =
     (if domain_isOnTopic st = Some False
      then Inr (st\<lparr>script := Some (Notice NOTICE_MESSAGE)\<rparr>)
      else
        (let p = (case script_progress st of None \<Rightarrow> first_progress | Some p \<Rightarrow> p);
             user_text = strip (last_user_text (turns st))
         in case current_question p (get_segment st) of
              Inl e \<Rightarrow> Inl e
            | Inr asked_q \<Rightarrow>
                (case (last_slot st, asked_q) of
                   (Some asked_slot, Some curr_q) \<Rightarrow>
                     if asked_slot \<noteq> [] \<and> asked_slot = qid curr_q \<and> user_text \<noteq> []
                     then (let p1 = p\<lparr>answered := insert asked_slot (answered p)\<rparr>;
                               st1 = st\<lparr>script_progress := map_option (\<lambda>_. p1) (script_progress st)\<rparr>
                           in case advance nf p1 user_text of
                                Inl e \<Rightarrow> Inl e
                              | Inr p2 \<Rightarrow> ask_or_end st1 p2)
                     else ask_or_end st p
                 | _ \<Rightarrow> ask_or_end st p)))"

text \<open>
  The caller's side of the protocol, as the spec describes it: the next request carries the
  progress and the slot id of the last \<open>ask\<close> output and the user's new answer.
\<close>

definition resubmit :: "script_state \<Rightarrow> ustr \<Rightarrow> script_state" where
  "resubmit st answer =
     (case script st of
        Some (Ask q slot_key s p) \<Rightarrow>
          st\<lparr>turns := [\<lparr>role = ''user'', content = answer\<rparr>],
             script_progress := Some p, last_slot := Some slot_key, script := None\<rparr>
      | _ \<Rightarrow> st\<lparr>turns := [\<lparr>role = ''user'', content = answer\<rparr>], script := None\<rparr>)"

text \<open>The outputs of a conversation: the first request, then one request per answer.\<close>

fun conversation :: "(ustr \<Rightarrow> ustr) \<Rightarrow> script_state \<Rightarrow> ustr list \<Rightarrow> script_output option list" where
  "conversation nf st answers =
     (case script_qna_node nf st of
        Inl e \<Rightarrow> [None]
      | Inr st' \<Rightarrow>
          script st' #
          (case answers of [] \<Rightarrow> [] | a # rest \<Rightarrow> conversation nf (resubmit st' a) rest))"

fun asked_slot_of :: "script_output option \<Rightarrow> string" where
  "asked_slot_of (Some (Ask q slot_key s p)) = slot_key"
| "asked_slot_of (Some (End m)) = ''end''"
| "asked_slot_of (Some (Notice m)) = ''notice''"
| "asked_slot_of None = ''error''"

definition first_request :: script_state where
  "first_request = \<lparr>turns = [\<lparr>role = ''user'', content = u ''hello''\<rparr>], script_progress = None,
     last_slot = None, param_segment = Some ''camping'', domain_isOnTopic = Some True,
     domain_segment = Some ''camping'', script = None\<rparr>"

text \<open>
  Requests with a progress that no turn of the engine produces: a section name that does not
  exist, an index past the end of section D, and a section that is the JSON array
  \<^verbatim>\<open>["A"]\<close>. The last one is the state in which the request body
  \<^verbatim>\<open>{"message": "ok", "segment": "camping", "script_progress": {"section": ["A"], "index": 0,\<close>
  \<^verbatim>\<open>"answered": []}}\<close> reaches the node: the router takes the segment from the parameter and
  finds the turn on topic.
\<close>

definition unknown_section_request :: script_state where
  "unknown_section_request = \<lparr>turns = [\<lparr>role = ''user'', content = u ''ok''\<rparr>],
     script_progress = Some \<lparr>sect = JStr ''Z'', index = 0, answered = {''A1_problem''}\<rparr>,
     last_slot = Some ''A1_problem'', param_segment = None, domain_isOnTopic = Some True,
     domain_segment = Some ''sports'', script = None\<rparr>"

definition index_past_end_request :: script_state where
  "index_past_end_request = \<lparr>turns = [\<lparr>role = ''user'', content = u ''ok''\<rparr>],
     script_progress = Some \<lparr>sect = JStr ''D'', index = 10, answered = {}\<rparr>,
     last_slot = Some ''D10_trust'', param_segment = None, domain_isOnTopic = None,
     domain_segment = None, script = None\<rparr>"

definition list_section_request :: script_state where
  "list_section_request = \<lparr>turns = [\<lparr>role = ''user'', content = u ''ok''\<rparr>],
     script_progress = Some \<lparr>sect = JList [JStr ''A''], index = 0, answered = {}\<rparr>,
     last_slot = None, param_segment = Some ''camping'', domain_isOnTopic = Some True,
     domain_segment = Some ''camping'', script = None\<rparr>"

text \<open>
  The words of the spec for the jump: the candidates are the positions of the current section's
  slot list (no position when the section is no section name) strictly after the current
  index whose slot is not answered, and each is scored by its slot's keyword score.
\<close>

definition section_slots :: "json \<Rightarrow> string list" where
  "section_slots s = (case s of JStr k \<Rightarrow> dict_get SECTION_ORDER k [] | _ \<Rightarrow> [])"

text \<open>The values that Python can hash: all that JSON delivers but lists and dictionaries.\<close>

fun hashable :: "json \<Rightarrow> bool" where
  "hashable (JList xs) = False"
| "hashable (JDict kvs) = False"
| "hashable v = True"

definition slot_candidate :: "progress \<Rightarrow> nat \<Rightarrow> bool" where
  "slot_candidate p i =
     (i < length (section_slots (sect p)) \<and> index p < int i \<and>
      section_slots (sect p) ! i \<notin> answered p)"

definition slot_score :: "(ustr \<Rightarrow> ustr) \<Rightarrow> ustr \<Rightarrow> progress \<Rightarrow> nat \<Rightarrow> nat" where
  "slot_score nf user_text p i = score_slot nf user_text (section_slots (sect p) ! i)"

text \<open>
  A progress in section B after the first answer, and an answer that names two keywords of
  slot \<^verbatim>\<open>B4_diff\<close> (the words for "differentiation" and "strength").
\<close>

definition jump_progress :: progress where
  "jump_progress = \<lparr>sect = JStr ''B'', index = 0, answered = {''B1_core_service''}\<rparr>"

definition jump_text :: ustr where
  "jump_text = [52264, 48324, 54868, 32, 44053, 51216]"

subsection \<open>router.py\<close>

text \<open>
  \<^verbatim>\<open>router._norm\<close> is the same function as \<^verbatim>\<open>script_catalog._norm\<close> (\<open>norm_str\<close> above), up to
  the guard for \<open>None\<close>. Confidences and scores are the decimal constants of the source; the code
  only compares them and takes minima and maxima, and \<open>hits / 5.0\<close> for a small count of
  hits is compared with 0.28 and 1.0, so exact rationals order them as the floats are ordered.
\<close>

definition INTENTS :: "string list" where
  "INTENTS = [''script_qna'', ''ideate'', ''feedback_quick'', ''summary'', ''research'',
     ''revenue'', ''write'']"

definition CONF_STRONG_RULE :: rat where
  "CONF_STRONG_RULE = 90 / 100"

definition UNRELATED_MIN_LEN :: nat where
  "UNRELATED_MIN_LEN = 2"

definition ON_TOPIC_THRESHOLD :: rat where
  "ON_TOPIC_THRESHOLD = 28 / 100"

definition SEGMENTS :: "string list" where
  "SEGMENTS = [''camping'', ''experience'', ''sports'']"

definition SEGMENT_KEYWORDS :: "(string \<times> ustr list) list" where
  "SEGMENT_KEYWORDS = [
     (''camping'',
      [[52896, 54609], [53584, 53944], [50724, 53664, 52896, 54609], [44544, 47016, 54609],
       [52852, 46972, 48152], [52264, 48149], [50556, 50689], u ''camp'', u ''camping'',
       u ''tent'', u ''rv'', u ''caravan'', u ''glamping'']),
     (''experience'',
      [[52404, 54744], [50529, 54000, 48708, 54000], [44032, 51060, 46300, 53804, 50612],
       [54788, 51648, 52404, 54744], [54788, 51648, 32, 53804, 50612], [50892, 53356, 49397],
       [53216, 53433, 53364, 47000, 49828], [44277, 48169], u ''experience'', u ''activity'',
       u ''guided tour'', u ''local tour'', u ''workshop'', u ''cooking class'', u ''craft'']),
     (''sports'',
      [[49828, 54252, 52768], [49436, 54609], [49828, 53412], [49828, 45432, 48372, 46300],
       [46321, 49328], [54616, 51060, 53433], [53944, 47112, 53433], [49324, 51060, 53364],
       [51088, 51204, 44144], [53364, 46972, 51060, 48141], [50516, 48317], [52629, 44396],
       [50556, 44396], [44264, 54532], [53580, 45768, 49828], [47560, 46972, 53668], u ''surf'',
       u ''ski'', u ''snowboard'', u ''hike'', u ''trek'', u ''hiking'', u ''cycling'',
       u ''bike'', u ''climbing'', u ''soccer'', u ''football'', u ''baseball'', u ''golf'',
       u ''tennis'', u ''marathon''])]"

definition ON_TOPIC_HINTS :: "ustr list" where
  "ON_TOPIC_HINTS = [[50668, 54665], [47112, 51200], [44288, 44305], [53804, 50612], [44032, 51060, 46300],
     [52404, 54744], [50529, 54000, 48708, 54000], [49689, 49548], [50696, 50557],
     [54000, 53011], [54056, 49828]]"

text \<open>\<^verbatim>\<open>is_unrelated\<close>; the class of the search is \<^verbatim>\<open>[A-Za-z0-9\<close>U+AC00\<^verbatim>\<open>-\<close>U+D7A3\<^verbatim>\<open>]\<close>.\<close>

definition latin_or_hangul :: "int \<Rightarrow> bool" where
  "latin_or_hangul c = ((65 \<le> c \<and> c \<le> 90) \<or> (97 \<le> c \<and> c \<le> 122) \<or> (48 \<le> c \<and> c \<le> 57) \<or>
     (44032 \<le> c \<and> c \<le> 55203))"

definition is_unrelated :: "ustr \<Rightarrow> bool" where
  "is_unrelated msg =
     (if length (strip msg) < UNRELATED_MIN_LEN then True
      else if \<not> list_ex latin_or_hangul msg then True
      else False)"

definition keyword_match_any :: "(ustr \<Rightarrow> ustr) \<Rightarrow> ustr \<Rightarrow> ustr list \<Rightarrow> bool" where
  "keyword_match_any nf text words =
     (if text = [] then False
      else list_ex (\<lambda>w. py_in (norm_str nf w) (norm_str nf text)) words)"

text \<open>
  \<^verbatim>\<open>max(items, key=...)\<close> keeps the first of the largest items; the key of
  \<^verbatim>\<open>rule_segment\<close> is the pair (hits, tie\_order), compared lexicographically.
\<close>

fun py_max :: "('a \<Rightarrow> 'k::linorder) \<Rightarrow> 'a \<Rightarrow> 'a list \<Rightarrow> 'a" where
  "py_max key best [] = best"
| "py_max key best (x # xs) = py_max key (if key best < key x then x else best) xs"

definition tie_order :: "(string \<times> nat) list" where
  "tie_order = [(''camping'', 2), (''experience'', 1), (''sports'', 0)]"

definition segment_hits :: "(ustr \<Rightarrow> ustr) \<Rightarrow> ustr \<Rightarrow> string \<Rightarrow> nat" where
  "segment_hits nf t seg =
     length (filter (\<lambda>w. keyword_match_any nf t [w]) (dict_get SEGMENT_KEYWORDS seg []))"

definition segment_scores :: "(ustr \<Rightarrow> ustr) \<Rightarrow> ustr \<Rightarrow> (string \<times> nat) list" where
  "segment_scores nf t =
     filter (\<lambda>kv. snd kv \<noteq> 0) (map (\<lambda>seg. (seg, segment_hits nf t seg)) SEGMENTS)"

definition rule_segment :: "(ustr \<Rightarrow> ustr) \<Rightarrow> ustr \<Rightarrow> string option" where
  "rule_segment nf msg =
     (case segment_scores nf msg of
        [] \<Rightarrow> None
      | kv # rest \<Rightarrow> Some (fst (py_max (\<lambda>kv. (snd kv, dict_get tie_order (fst kv) 0)) kv rest)))"

definition on_topic_score :: "(ustr \<Rightarrow> ustr) \<Rightarrow> ustr \<Rightarrow> rat" where
  "on_topic_score nf msg =
     (let t = norm_str nf msg;
          hits = length (filter (\<lambda>k. py_in (norm_str nf k) t) ON_TOPIC_HINTS);
          hits' = (if list_ex (\<lambda>kws. keyword_match_any nf t kws) (map snd SEGMENT_KEYWORDS)
                   then hits + 1 else hits)
      in min (of_nat hits' / 5) 1)"

text \<open>
  The state of the router nodes: \<^verbatim>\<open>state.step\<close>, the turns, the parameters \<^verbatim>\<open>segment\<close> and
  \<^verbatim>\<open>allow_zero_shot\<close>, and \<^verbatim>\<open>outputs["relevance"]["related"]\<close> (\<open>None\<close> when absent).
  \<^verbatim>\<open>outputs["domain"]\<close> is either the short dictionary of an explicit route or a full decision.
\<close>

record domain_decision =
  intent :: string
  domain :: string
  confidence :: rat
  subdomain :: "string option"
  segment :: "string option"
  via :: string
  isOnTopic :: bool
  onTopicScore :: rat

datatype domain_output = Routed string string | Decision domain_decision

record router_state =
  step :: "string option"
  r_turns :: "turn list"
  seg_param :: "string option"
  allow_zero_shot :: bool
  relevance_related :: "bool option"
  domain_out :: "domain_output option"

definition relevance_check_node :: "router_state \<Rightarrow> router_state" where
  "relevance_check_node st =
     st\<lparr>relevance_related := Some (\<not> is_unrelated (last_user_text (r_turns st)))\<rparr>"

text \<open>
  \<^verbatim>\<open>domain_detect_node\<close>. The parameter \<open>zero_shot\<close> is the awaited result of
  \<^verbatim>\<open>classify_segment_zero_shot(msg, hist)\<close>, which asks the external language model: a segment
  name, or \<open>None\<close> for "none", a malformed answer or an exception. It is consulted at most once.
\<close>

definition decide ::
  "(ustr \<Rightarrow> ustr) \<Rightarrow> (ustr \<Rightarrow> turn list \<Rightarrow> string option) \<Rightarrow> router_state \<Rightarrow> domain_decision" where
  "decide nf zero_shot st =
     (let msg = last_user_text (r_turns st);
          seg_a = (case seg_param st of
                     Some s \<Rightarrow> if s \<in> set SEGMENTS then Some s else None
                   | None \<Rightarrow> None);
          via_a = (if seg_a \<noteq> None then Some ''param'' else None);
          conf_a = (if seg_a \<noteq> None then 95 / 100 else 0);
          seg_b = (if seg_a = None then rule_segment nf msg else seg_a);
          via_b = (if seg_a = None \<and> seg_b \<noteq> None then Some ''rule'' else via_a);
          conf_b = (if seg_a = None \<and> seg_b \<noteq> None then CONF_STRONG_RULE else conf_a);
          z = (if seg_b = None \<and> allow_zero_shot st then zero_shot msg (r_turns st) else None);
          hit_c = (seg_b = None \<and> allow_zero_shot st \<and> (case z of Some s \<Rightarrow> s \<in> set SEGMENTS | None \<Rightarrow> False));
          seg_c = (if hit_c then z else seg_b);
          via_c = (if hit_c then Some ''zero-shot'' else via_b);
          conf_c = (if hit_c then max conf_b (65 / 100) else conf_b);
          via_d = (if seg_c = None then (case via_c of None \<Rightarrow> Some ''default'' | Some v \<Rightarrow> Some v)
                   else via_c);
          conf_d = (if seg_c = None then max conf_c (50 / 100) else conf_c);
          topic_score = on_topic_score nf msg;
          is_on_topic = (topic_score \<ge> ON_TOPIC_THRESHOLD \<or> seg_c \<noteq> None);
          via_e = (if \<not> is_on_topic then Some ''unrelated'' else via_d);
          conf_e = (if \<not> is_on_topic then min conf_d (30 / 100) else conf_d)
      in \<lparr>intent = ''script_qna'', domain = ''travel'', confidence = conf_e, subdomain = seg_c,
          segment = seg_c, via = (case via_e of Some v \<Rightarrow> v | None \<Rightarrow> []), isOnTopic = is_on_topic,
          onTopicScore = topic_score\<rparr>)"

definition domain_detect_node ::
  "(ustr \<Rightarrow> ustr) \<Rightarrow> (ustr \<Rightarrow> turn list \<Rightarrow> string option) \<Rightarrow> router_state \<Rightarrow> router_state" where
  "domain_detect_node nf zero_shot st =
     (case (case step st of Some s \<Rightarrow> if s \<in> set INTENTS then Some s else None | None \<Rightarrow> None) of
        Some s \<Rightarrow> st\<lparr>domain_out := Some (Routed s ''explicit'')\<rparr>
      | None \<Rightarrow>
          if relevance_related st = Some False
          then st\<lparr>domain_out := Some (Decision
                 \<lparr>intent = ''script_qna'', domain = ''travel'', confidence = 30 / 100,
                  subdomain = None, segment = None, via = ''unrelated'', isOnTopic = False,
                  onTopicScore = 0\<rparr>),
                 step := Some ''script_qna''\<rparr>
          else st\<lparr>domain_out := Some (Decision (decide nf zero_shot st)),
                 step := Some ''script_qna''\<rparr>)"

text \<open>A request whose message names no travel or leisure term, and no segment.\<close>

definition small_talk_request :: router_state where
  "small_talk_request = \<lparr>step = None, r_turns = [\<lparr>role = ''user'', content = u ''hello there''\<rparr>],
     seg_param = None, allow_zero_shot = False, relevance_related = Some True, domain_out = None\<rparr>"

text \<open>
  The turn of the request body \<^verbatim>\<open>{"message": "ok", "segment": "camping", "script_progress":\<close>
  \<^verbatim>\<open>{"section": ["A"], "index": 0, "answered": []}}\<close> as \<^verbatim>\<open>chat\<close> hands it to the router, with the
  step set to the empty string.
\<close>

definition list_section_turn :: router_state where
  "list_section_turn = \<lparr>step = Some [], r_turns = [\<lparr>role = ''user'', content = u ''ok''\<rparr>],
     seg_param = Some ''camping'', allow_zero_shot = False, relevance_related = None,
     domain_out = None\<rparr>"

subsection \<open>length\_control.py: presets and style\<close>

definition LENGTH_PRESETS :: "(string \<times> (int \<times> int)) list" where
  "LENGTH_PRESETS = [(''one_line'', (140, 50)), (''short'', (400, 120)),
     (''medium'', (1200, 300)), (''long'', (4000, 1000))]"

definition USER_HINTS :: "(string \<times> ustr list) list" where
  "USER_HINTS = [
     (''one_line'', [[54620, 51460], [54620, 32, 51460], [49836, 47196, 44148],
                     [50648, 47532, 48288, 51060, 53552], [54620, 47928, 51109],
                     [54620, 32, 47928, 51109]]),
     (''short'', [[51687, 44172], [44036, 45800, 55176], [50836, 50557], [54645, 49900, 47564]]),
     (''medium'', [[48372, 53685], [51473, 44036], [51201, 45817, 55176]]),
     (''long'', [[44600, 44172], [51088, 49464, 55176], [49345, 49464, 55176],
                 [48372, 44256, 49436], [51204, 52404, 32, 52488, 50504], [54400, 48260, 51204]])]"

definition detect_user_style :: "ustr \<Rightarrow> string option" where
  "detect_user_style q =
     (case filter (\<lambda>kv. list_ex (\<lambda>h. py_in h q) (snd kv)) USER_HINTS of
        [] \<Rightarrow> None
      | kv # rest \<Rightarrow> Some (fst kv))"

definition auto_classify_style :: "ustr \<Rightarrow> string" where
  "auto_classify_style q =
     (if list_ex (\<lambda>k. py_in k q) [[49836, 47196, 44148], [54620, 51460], [54620, 32, 47928, 51109]]
      then ''one_line''
      else if list_ex (\<lambda>k. py_in k q) [[50836, 50557], [54645, 49900]] then ''short''
      else if list_ex (\<lambda>k. py_in k q) [[51204, 52404], [52488, 50504], [48372, 44256, 49436]]
      then ''long''
      else ''medium'')"

definition decide_length_style :: "ustr \<Rightarrow> string" where
  "decide_length_style q =
     (case detect_user_style q of Some s \<Rightarrow> s | None \<Rightarrow> auto_classify_style q)"

subsection \<open>length\_control.py: token cap\<close>

text \<open>
  \<^verbatim>\<open>str.split()\<close> without arguments, and \<^verbatim>\<open>" ".join\<close>.
\<close>

function py_split :: "ustr \<Rightarrow> ustr list" where
  "py_split s =
     (let s' = dropWhile is_space s in
      if s' = [] then []
      else takeWhile (\<lambda>c. \<not> is_space c) s' # py_split (dropWhile (\<lambda>c. \<not> is_space c) s'))"
  by pat_completeness auto
termination
proof (relation "measure length")
  fix s s' :: ustr
  assume "s' = dropWhile is_space s" and "s' \<noteq> []"
  then have "\<not> is_space (hd s')"
    using hd_dropWhile [of is_space s] by simp
  moreover obtain a rest where "s' = a # rest"
    using \<open>s' \<noteq> []\<close> by (cases s') simp_all
  ultimately have "length (dropWhile (\<lambda>c. \<not> is_space c) s') < length s'"
    by (simp add: le_imp_less_Suc length_dropWhile_le)
  moreover have "length s' \<le> length s"
    using \<open>s' = dropWhile is_space s\<close> by (simp add: length_dropWhile_le)
  ultimately show "(dropWhile (\<lambda>c. \<not> is_space c) s', s) \<in> measure length"
    by simp
qed simp

declare py_split.simps [simp del]

fun join_space :: "ustr list \<Rightarrow> ustr" where
  "join_space [] = []"
| "join_space [w] = w"
| "join_space (w # ws) = w @ 32 # join_space ws"

text \<open>
  The \<^verbatim>\<open>Tokenizer\<close> class: with the tiktoken encoder (an external library: any encoding
  function, and a decoding function that may raise, which is \<open>None\<close>), or the whitespace fallback.
\<close>

datatype tokenizer = Tiktoken "ustr \<Rightarrow> int list" "int list \<Rightarrow> ustr option" | Fallback

text \<open>\<^verbatim>\<open>text[:n]\<close> for any integer \<open>n\<close>: a negative \<open>n\<close> counts from the end.\<close>

definition py_take :: "int \<Rightarrow> 'a list \<Rightarrow> 'a list" where
  "py_take n xs = (if 0 \<le> n then take (nat n) xs else take (length xs - nat (- n)) xs)"

definition enforce_token_cap :: "ustr \<Rightarrow> int option \<Rightarrow> tokenizer \<Rightarrow> ustr" where
  "enforce_token_cap text max_tokens tok =
     (case max_tokens of
        None \<Rightarrow> text
      | Some n \<Rightarrow>
          if n \<le> 0 then text
          else (case tok of
                  Fallback \<Rightarrow>
                    (let ids = py_split text in
                     if int (length ids) \<le> n then text else join_space (py_take n ids))
                | Tiktoken encode decode \<Rightarrow>
                    (let ids = encode text in
                     if int (length ids) \<le> n then text
                     else (case decode (py_take n ids) of
                             Some trimmed \<Rightarrow> trimmed
                           | None \<Rightarrow> py_take (n * 4) text))))"

subsection \<open>length\_control.py: character cap\<close>

text \<open>
  The classes of the three patterns: \<^verbatim>\<open>_SENT_PUNCT\<close> is \<^verbatim>\<open>[.!?\<close>U+3002 U+FF01 U+FF1F
  U+2026\<^verbatim>\<open>]+\<close>, \<^verbatim>\<open>_EXPLICIT_END\<close> is a run of newlines or one of the closing marks
  U+201D U+2019 \<^verbatim>\<open>" ' )  ]\<close> U+300D U+300F, and \<^verbatim>\<open>_WORD_BOUNDARY\<close> is
  \<^verbatim>\<open>[\s,;:/\<close>U+00B7\<^verbatim>\<open>-\<close>U+2013 U+2014\<^verbatim>\<open>]+\<close>.
\<close>

definition sent_punct :: "int \<Rightarrow> bool" where
  "sent_punct c = (c \<in> set [46, 33, 63, 12290, 65281, 65311, 8230])"

definition closing_mark :: "int \<Rightarrow> bool" where
  "closing_mark c = (c \<in> set [8221, 8217, 34, 39, 12301, 12303, 41, 93])"

definition word_boundary :: "int \<Rightarrow> bool" where
  "word_boundary c = (is_space c \<or> c \<in> set [44, 59, 58, 47, 183, 45, 8211, 8212])"

text \<open>
  The alternation \<^verbatim>\<open>(?:_SENT_PUNCT|_EXPLICIT_END)\<close> tries its branches in order at each
  position: a run of sentence punctuation, a run of newlines, one closing mark.
\<close>

definition m_sent_or_end :: "ustr \<Rightarrow> nat" where
  "m_sent_or_end s =
     (case s of
        [] \<Rightarrow> 0
      | c # cs \<Rightarrow>
          if sent_punct c then length (takeWhile sent_punct s)
          else if c = 10 then length (takeWhile (\<lambda>x. x = 10) s)
          else if closing_mark c then 1
          else 0)"

definition m_word_boundary :: "ustr \<Rightarrow> nat" where
  "m_word_boundary s = length (takeWhile word_boundary s)"

definition FENCE_TRIPLE :: ustr where
  "FENCE_TRIPLE = [96, 96, 96]"

definition FENCE_TILDES :: ustr where
  "FENCE_TILDES = [126, 126, 126]"

definition LINK_TOKENS :: "ustr list" where
  "LINK_TOKENS = [[93, 40], u ''http://'', u ''https://'', u ''://'']"

text \<open>\<^verbatim>\<open>str.count(pat)\<close>: the occurrences of \<open>pat\<close>, scanned from the left without overlap.\<close>

function py_count :: "'a list \<Rightarrow> 'a list \<Rightarrow> nat" where
  "py_count pat s =
     (if pat = [] then Suc (length s)
      else if s = [] then 0
      else if startswith s pat then Suc (py_count pat (drop (length pat) s))
      else py_count pat (tl s))"
  by pat_completeness auto
termination
  by (relation "measure (\<lambda>(pat, s). length s)") auto

declare py_count.simps [simp del]

definition balance_fences :: "ustr \<Rightarrow> ustr" where
  "balance_fences text =
     (let text1 = (if odd (py_count FENCE_TRIPLE text) then text @ 10 # FENCE_TRIPLE else text)
      in if odd (py_count FENCE_TILDES text1) then text1 @ 10 # FENCE_TILDES else text1)"

definition inside_code_block :: "ustr \<Rightarrow> nat \<Rightarrow> bool" where
  "inside_code_block text idx =
     (odd (py_count FENCE_TRIPLE (take idx text)) \<or> odd (py_count FENCE_TILDES (take idx text)))"

definition backoff_link_boundary :: "ustr \<Rightarrow> nat \<Rightarrow> nat" where
  "backoff_link_boundary text cut_idx =
     (if list_ex (\<lambda>tok. py_in tok (drop (cut_idx - 6) (take cut_idx text))) LINK_TOKENS
      then (case rev (finditer m_word_boundary 0 (take cut_idx text)) of
              [] \<Rightarrow> cut_idx
            | m # ms \<Rightarrow> fst m)
      else cut_idx)"

text \<open>The loop \<^verbatim>\<open>while i > 0 and _inside_code_block(text, i): i -= 1\<close>.\<close>

fun retreat :: "ustr \<Rightarrow> nat \<Rightarrow> nat" where
  "retreat text 0 = 0"
| "retreat text (Suc i) = (if inside_code_block text (Suc i) then retreat text i else Suc i)"

text \<open>
  \<^verbatim>\<open>soft_cut\<close> for a text longer than the cap: \<open>boundary_cut\<close> is the cut index after
  steps 1 and 2, \<open>soft_cut_idx\<close> the final one, at which the text is cut.
\<close>

definition boundary_cut :: "ustr \<Rightarrow> nat" where
  "boundary_cut snippet =
     (case rev (finditer m_sent_or_end 0 snippet) of
        m # ms \<Rightarrow> snd m
      | [] \<Rightarrow>
          (case rev (finditer m_word_boundary 0 snippet) of
             m2 # ms \<Rightarrow> fst m2
           | [] \<Rightarrow> length snippet))"

definition soft_cut_idx :: "ustr \<Rightarrow> int \<Rightarrow> nat" where
  "soft_cut_idx text max_chars =
     (let snippet = py_take max_chars text;
          cut_idx = boundary_cut snippet;
          cut_idx = retreat text cut_idx;
          cut_idx = backoff_link_boundary text cut_idx
      in max 1 (min cut_idx (length snippet)))"

definition soft_cut :: "ustr \<Rightarrow> int \<Rightarrow> bool \<Rightarrow> ustr" where
  "soft_cut text max_chars add_ellipsis =
     (if int (length text) \<le> max_chars then balance_fences text
      else (let out = balance_fences (rstrip (take (soft_cut_idx text max_chars) text))
            in if add_ellipsis then out @ [8230] else out))"

definition enforce_char_cap :: "ustr \<Rightarrow> int \<Rightarrow> bool \<Rightarrow> ustr" where
  "enforce_char_cap text max_chars is_code =
     (if int (length text) \<le> max_chars then balance_fences text
      else if is_code
      then balance_fences (rstrip (take (max 1 (retreat text (length (py_take max_chars text)))) text))
      else soft_cut text max_chars True)"

subsection \<open>length\_control.py: the payload trimmer\<close>

text \<open>
  A policy of \<^verbatim>\<open>KEY_POLICY\<close>: the field \<open>type\<close> and the optional fields, \<open>None\<close> where the
  dictionary has no such key.
\<close>

record policy =
  pol_type :: string
  pol_max_chars :: "int option"
  pol_max_each :: "int option"
  pol_max_count :: "int option"
  pol_tail :: "bool option"

definition text_policy :: policy where
  "text_policy = \<lparr>pol_type = ''text'', pol_max_chars = None, pol_max_each = None, pol_max_count = None, pol_tail = None\<rparr>"

definition code_policy :: policy where
  "code_policy = \<lparr>pol_type = ''code'', pol_max_chars = None, pol_max_each = None, pol_max_count = None, pol_tail = None\<rparr>"

definition list_policy :: policy where
  "list_policy = \<lparr>pol_type = ''list'', pol_max_chars = None, pol_max_each = None, pol_max_count = None, pol_tail = None\<rparr>"

definition KEY_POLICY :: "(string \<times> policy) list" where
  "KEY_POLICY = [
     (''one_liner'', text_policy\<lparr>pol_max_chars := Some 140\<rparr>),
     (''summary_text'', text_policy),
     (''plan_md'', text_policy),
     (''body'', text_policy),
     (''text'', text_policy),
     (''content'', text_policy),
     (''answer'', text_policy),
     (''code'', code_policy),
     (''json'', code_policy),
     (''bullets'', list_policy\<lparr>pol_max_each := Some 250, pol_max_count := Some 7, pol_tail := Some True\<rparr>),
     (''outline'', list_policy\<lparr>pol_max_each := Some 120, pol_max_count := Some 10, pol_tail := Some True\<rparr>),
     (''items'', list_policy\<lparr>pol_max_each := Some 200, pol_max_count := Some 10, pol_tail := Some True\<rparr>)]"

definition SKIP_KEYS :: "string set" where
  "SKIP_KEYS = {''relevance'', ''faq'', ''domain''}"

text \<open>The decimal digits of a number, for the f-string of the tail marker.\<close>

function digits :: "nat \<Rightarrow> ustr" where
  "digits n = (if n < 10 then [48 + int n] else digits (n div 10) @ [48 + int (n mod 10)])"
  by pat_completeness auto
termination
  by (relation "measure id") auto

declare digits.simps [simp del]

definition more_marker :: "int \<Rightarrow> ustr" where
  "more_marker remain = [8230, 32, 40, 43] @ digits (nat remain) @ u '' more)''"

definition enforce_bullets :: "ustr list \<Rightarrow> int \<Rightarrow> int \<Rightarrow> bool \<Rightarrow> ustr list" where
  "enforce_bullets lst max_each max_count tail =
     (let out = map (\<lambda>s. enforce_char_cap s max_each False) (py_take max_count lst);
          remain = max 0 (int (length lst) - max_count)
      in if tail \<and> remain > 0 then out @ [more_marker remain] else out)"

text \<open>
  A payload: a string, a list, a dictionary (its items in order), or any other value, which the
  trimmer never looks into.
\<close>

datatype 'a payload =
    PStr ustr
  | PList "'a payload list"
  | PDict "(string \<times> 'a payload) list"
  | POther 'a

fun is_PStr :: "'a payload \<Rightarrow> bool" where
  "is_PStr (PStr s) = True"
| "is_PStr v = False"

fun str_of :: "'a payload \<Rightarrow> ustr" where
  "str_of (PStr s) = s"
| "str_of v = []"

text \<open>
  The keyword arguments that \<^verbatim>\<open>_trim_value\<close> passes down unchanged. The tokenizer is the
  one in effect: the given one, or the \<^verbatim>\<open>Tokenizer()\<close> that \<^verbatim>\<open>enforce_token_cap\<close> builds.
\<close>

record trim_args =
  style_chars :: "int option"
  global_cap :: int
  token_cap :: "int option"
  tok :: tokenizer

text \<open>\<^verbatim>\<open>x or y\<close> for an optional integer \<open>x\<close>: \<open>None\<close> and 0 are false.\<close>

definition or_int :: "int option \<Rightarrow> int \<Rightarrow> int" where
  "or_int x y = (case x of None \<Rightarrow> y | Some v \<Rightarrow> if v = 0 then y else v)"

definition policy_of :: "string option \<Rightarrow> policy \<Rightarrow> policy" where
  "policy_of key dflt = dict_get KEY_POLICY (case key of None \<Rightarrow> [] | Some k \<Rightarrow> k) dflt"

definition trim_str :: "trim_args \<Rightarrow> string option \<Rightarrow> ustr \<Rightarrow> ustr" where
  "trim_str a key v =
     (let pol = policy_of key text_policy;
          is_code = (pol_type pol = ''code'');
          txt = (if \<not> is_code \<and> or_int (token_cap a) 0 \<noteq> 0
                 then enforce_token_cap v (token_cap a) (tok a) else v);
          cap_chars = min (case pol_max_chars pol of
                             None \<Rightarrow> or_int (style_chars a) (global_cap a)
                           | Some c \<Rightarrow> c) (global_cap a)
      in enforce_char_cap txt cap_chars is_code)"

definition trim_str_list :: "trim_args \<Rightarrow> string option \<Rightarrow> ustr list \<Rightarrow> ustr list" where
  "trim_str_list a key lst =
     (let pol = policy_of key list_policy;
          each = min (case pol_max_each pol of
                        None \<Rightarrow> or_int (style_chars a) 250
                      | Some e \<Rightarrow> e) 250;
          cnt = (case pol_max_count pol of None \<Rightarrow> 7 | Some c \<Rightarrow> c);
          tl = (case pol_tail pol of None \<Rightarrow> False | Some t \<Rightarrow> t)
      in enforce_bullets lst each cnt tl)"

fun trim_value :: "trim_args \<Rightarrow> string option \<Rightarrow> 'a payload \<Rightarrow> 'a payload" where
  "trim_value a key (PStr s) = PStr (trim_str a key s)"
| "trim_value a key (PList xs) =
     (if list_all is_PStr xs then PList (map PStr (trim_str_list a key (map str_of xs)))
      else PList (map (trim_value a key) xs))"
| "trim_value a key (PDict kvs) =
     PDict (map (\<lambda>kv. (fst kv, if fst kv \<in> SKIP_KEYS then snd kv
                               else trim_value a (Some (fst kv)) (snd kv))) kvs)"
| "trim_value a key (POther x) = POther x"

definition trim_payload ::
  "'a payload \<Rightarrow> string option \<Rightarrow> int \<Rightarrow> int option \<Rightarrow> tokenizer \<Rightarrow> 'a payload" where
  "trim_payload payload length_style max_characters max_tokens tokenizer =
     (let preset = (case length_style of
                      None \<Rightarrow> None
                    | Some s \<Rightarrow> map_of LENGTH_PRESETS s);
          style_ch = (case length_style of
                        None \<Rightarrow> None
                      | Some s \<Rightarrow> if s = [] then None else map_option fst preset);
          style_tokens = map_option snd preset;
          tcap = (case (max_tokens, style_tokens) of
                    (None, None) \<Rightarrow> None
                  | (Some m, None) \<Rightarrow> Some m
                  | (None, Some t) \<Rightarrow> Some t
                  | (Some m, Some t) \<Rightarrow> Some (min m t))
      in trim_value \<lparr>style_chars = style_ch, global_cap = max_characters, token_cap = tcap,
                      tok = tokenizer\<rparr> None payload)"

subsection \<open>length\_control.py: the pipeline entry\<close>

text \<open>
  A parameter value as the caller may send it. \<open>parse_float\<close> stands for the builtin
  \<^verbatim>\<open>float(str)\<close>, with \<open>None\<close> for its ValueError.
\<close>

datatype param_value = VNone | VBool bool | VInt int | VFloat pyfloat | VStr ustr | VOther

fun int_of_float :: "pyfloat \<Rightarrow> py_error + int" where
  "int_of_float (Finite r) = Inr (if 0 \<le> r then \<lfloor>r\<rfloor> else \<lceil>r\<rceil>)"
| "int_of_float PosInfinity = Inl OverflowError"
| "int_of_float NegInfinity = Inl OverflowError"
| "int_of_float NotANumber = Inl ValueError"

fun to_int :: "(ustr \<Rightarrow> pyfloat option) \<Rightarrow> param_value \<Rightarrow> int option \<Rightarrow> py_error + int option" where
  "to_int parse_float VNone dflt = Inr dflt"
| "to_int parse_float (VBool b) dflt = Inr (Some (if b then 1 else 0))"
| "to_int parse_float (VInt i) dflt = Inr (Some i)"
| "to_int parse_float (VFloat f) dflt = map_sum id Some (int_of_float f)"
| "to_int parse_float (VStr s) dflt =
     (let v = strip s in
      if v = [] then Inr dflt
      else (case parse_float v of
              None \<Rightarrow> Inr dflt
            | Some f \<Rightarrow> (case int_of_float f of Inl e \<Rightarrow> Inr dflt | Inr i \<Rightarrow> Inr (Some i))))"
| "to_int parse_float VOther dflt = Inr dflt"

text \<open>
  The caps that \<^verbatim>\<open>apply_length_control\<close> computes from the parameters \<^verbatim>\<open>max_chars\<close> and
  \<^verbatim>\<open>max_tokens\<close> (an absent parameter is \<open>VNone\<close>), and the node itself.
\<close>

definition resolve_caps ::
  "(ustr \<Rightarrow> pyfloat option) \<Rightarrow> param_value \<Rightarrow> param_value \<Rightarrow> py_error + (int \<times> int option)" where
  "resolve_caps parse_float p_max_chars p_max_tokens =
     (case to_int parse_float p_max_chars (Some 4000) of
        Inl e \<Rightarrow> Inl e
      | Inr g \<Rightarrow>
          (case to_int parse_float p_max_tokens None of
             Inl e \<Rightarrow> Inl e
           | Inr t \<Rightarrow>
               (let g1 = or_int g 4000;
                    g2 = (if g1 \<le> 0 then 4000 else g1);
                    t2 = (case t of None \<Rightarrow> None | Some n \<Rightarrow> if n \<le> 0 then None else Some n)
                in Inr (g2, t2))))"

record 'a length_state =
  query :: ustr
  outputs :: "'a payload"
  length_style :: "string option"
  p_max_chars :: param_value
  p_max_tokens :: param_value

definition apply_length_control ::
  "(ustr \<Rightarrow> pyfloat option) \<Rightarrow> tokenizer \<Rightarrow> 'a length_state \<Rightarrow> py_error + 'a length_state" where
  "apply_length_control parse_float tokenizer st =
     (let style = (case length_style st of
                     Some s \<Rightarrow> if s \<noteq> [] then s else decide_length_style (query st)
                   | None \<Rightarrow> decide_length_style (query st))
      in case resolve_caps parse_float (p_max_chars st) (p_max_tokens st) of
           Inl e \<Rightarrow> Inl e
         | Inr (g, t) \<Rightarrow>
             Inr (st\<lparr>outputs := trim_payload (outputs st) (Some style) g t tokenizer,
                    length_style := Some style\<rparr>))"

subsection \<open>The shape of a payload\<close>

text \<open>
  The words of the spec for "the same shape": a string corresponds to a string, a list to a
  list (a list of strings to a list of strings, any other list element by element), a
  dictionary to a dictionary with the same keys in the same order whose values correspond,
  except that the value of a metadata key is the same value, and any other value to itself.
\<close>

fun same_shape :: "'a payload \<Rightarrow> 'a payload \<Rightarrow> bool" where
  "same_shape (PStr s) (PStr t) = True"
| "same_shape (PList xs) (PList ys) =
     (if list_all is_PStr xs then list_all is_PStr ys else list_all2 same_shape xs ys)"
| "same_shape (PDict kvs) (PDict kws) =
     (map fst kvs = map fst kws \<and>
      list_all2 (\<lambda>kv kw. if fst kv \<in> SKIP_KEYS then snd kw = snd kv
                         else same_shape (snd kv) (snd kw)) kvs kws)"
| "same_shape (POther a) (POther b) = (a = b)"
| "same_shape v w = False"

text \<open>A response with a trimmed answer, a metadata entry and a nested list.\<close>

definition sample_payload :: "int payload" where
  "sample_payload = PDict [
     (''answer'', PStr (u ''Plan the trip. Then book the tent and the caravan'')),
     (''domain'', PDict [(''answer'', PStr (u ''Plan the trip. Then book the tent and the caravan''))]),
     (''score'', POther 7),
     (''items'', PList [PStr (u ''tent''), POther 3, PList [PStr (u ''a''), PStr (u ''b'')]])]"

text \<open>
  Test data for the length governor: a fenced block that holds a link marker, followed by
  plain words (14 characters), and eight bullets of which the first has 300 characters.
\<close>

definition fenced_link_text :: ustr where
  "fenced_link_text = FENCE_TRIPLE @ u ''://'' @ FENCE_TRIPLE @ u '' zzzz''"

definition eight_bullets :: "ustr list" where
  "eight_bullets = replicate 300 97 # replicate 7 (u ''b'')"

subsection \<open>Payloads on which trimming twice is trimming once\<close>












definition open_fence :: "unit payload" where
  "open_fence = PDict [(''answer'', PStr FENCE_TRIPLE)]"


definition open_fence_line :: "unit payload" where
  "open_fence_line = PDict [(''answer'', PStr (97 # 10 # FENCE_TRIPLE))]"

definition blank_start :: "unit payload" where
  "blank_start = PDict [(''answer'', PStr (u '' x''))]"


section \<open>Properties of the program\<close>

subsection \<open>Script engine: a progress that points at no slot\<close>

lemma py_lookup_cases:
  "(py_lookup SECTION_ORDER s = Inl TypeError \<and> \<not> hashable s \<and> section_slots s = []) \<or>
   (py_lookup SECTION_ORDER s = Inr None \<and> hashable s \<and> s \<notin> set (map JStr flow) \<and>
      section_slots s = []) \<or>
   (\<exists>k order. s = JStr k \<and> map_of SECTION_ORDER k = Some order \<and> s \<in> set (map JStr flow) \<and>
      py_lookup SECTION_ORDER s = Inr (Some order) \<and> section_slots s = order)"
proof (cases s)
  case (JStr k)
  show ?thesis
  proof (cases "map_of SECTION_ORDER k")
    case None
    then have "k \<notin> set flow"
      by (auto simp: SECTION_ORDER_def flow_def split: if_splits)
    with None JStr show ?thesis
      by (auto simp: py_lookup_def section_slots_def dict_get_def)
  next
    case (Some order)
    then have "k \<in> set flow"
      by (auto simp: SECTION_ORDER_def flow_def split: if_splits)
    with Some JStr show ?thesis
      by (auto simp: py_lookup_def section_slots_def dict_get_def)
  qed
qed (auto simp: py_lookup_def section_slots_def)

text \<open>
  What the guard of \<^verbatim>\<open>current_question\<close> achieves: when the section is a hashable value that
  is not one of A, B, C, D, or the index is negative or at least the length of the section's
  slot list, \<^verbatim>\<open>current_question\<close> is \<open>None\<close>, the node returns the \<open>end\<close> mode, and nothing
  else of the state changes.
\<close>

lemma current_question_invalid:
  assumes "hashable (sect p)"
      and "sect p \<notin> set (map JStr flow) \<or> index p < 0 \<or>
           int (length (section_slots (sect p))) \<le> index p"
  shows "current_question p seg = Inr None"
  using py_lookup_cases [of "sect p"] assms
  by (auto simp: current_question_def)

lemma script_qna_node_invalid_hashable:
  assumes "domain_isOnTopic st \<noteq> Some False"
      and "script_progress st = Some p"
      and "hashable (sect p)"
      and "sect p \<notin> set (map JStr flow) \<or> index p < 0 \<or>
           int (length (section_slots (sect p))) \<le> index p"
  shows "current_question p (get_segment st) = Inr None \<and>
         script_qna_node nf st = Inr (st\<lparr>script := Some (End END_MESSAGE)\<rparr>)"
proof -
  have cq: "current_question p (get_segment st) = Inr None"
    using assms(3,4) by (rule current_question_invalid)
  then show ?thesis
    using assms(1,2)
    by (simp add: script_qna_node_def ask_or_end_def Let_def split: option.splits)
qed

lemma script_qna_node_invalid_examples:
  "script_qna_node nf unknown_section_request =
     Inr (unknown_section_request\<lparr>script := Some (End END_MESSAGE)\<rparr>) \<and>
   script_qna_node nf index_past_end_request =
     Inr (index_past_end_request\<lparr>script := Some (End END_MESSAGE)\<rparr>)"
proof -
  have a: "script_progress unknown_section_request =
      Some \<lparr>sect = JStr ''Z'', index = 0, answered = {''A1_problem''}\<rparr>"
    and b: "domain_isOnTopic unknown_section_request \<noteq> Some False"
    by (simp_all add: unknown_section_request_def)
  have c: "script_progress index_past_end_request =
      Some \<lparr>sect = JStr ''D'', index = 10, answered = {}\<rparr>"
    and d: "domain_isOnTopic index_past_end_request \<noteq> Some False"
    by (simp_all add: index_past_end_request_def)
  have e: "sect \<lparr>sect = JStr ''Z'', index = 0, answered = {''A1_problem''}\<rparr> \<notin> set (map JStr flow)"
    by (simp add: flow_def)
  have f: "int (length (section_slots (sect \<lparr>sect = JStr ''D'', index = 10, answered = {}\<rparr>)))
      \<le> index \<lparr>sect = JStr ''D'', index = 10, answered = {}\<rparr>"
    by (simp add: section_slots_def dict_get_def SECTION_ORDER_def D_ORDER_def)
  show ?thesis
    using script_qna_node_invalid_hashable [OF b a, of nf] e
          script_qna_node_invalid_hashable [OF d c, of nf] f
    by simp
qed

text \<open>
  The guard does not reach a section that cannot be hashed. Every on-topic turn whose
  resubmitted section is a JSON array or object leaves the node with the TypeError that
  \<^verbatim>\<open>SECTION_ORDER.get(section)\<close> raises.
\<close>

lemma script_qna_node_unhashable:
  assumes "domain_isOnTopic st \<noteq> Some False"
      and "script_progress st = Some p"
      and "\<not> hashable (sect p)"
  shows "script_qna_node nf st = Inl TypeError"
proof -
  have "current_question p (get_segment st) = Inl TypeError"
    using py_lookup_cases [of "sect p"] assms(3)
    by (auto simp: current_question_def)
  then show ?thesis
    using assms(1,2) by (simp add: script_qna_node_def Let_def)
qed

text \<open>
  The request of \<open>list_section_request\<close> is an on-topic turn: whatever the normaliser and
  the classifier, the router takes the segment from the parameter and marks the turn on topic.
\<close>

lemma list_section_turn_on_topic:
  "\<exists>d. domain_out (domain_detect_node nf zero_shot (relevance_check_node list_section_turn)) =
         Some (Decision d) \<and> isOnTopic d \<and> segment d = Some ''camping''"
proof -
  have "\<not> is_unrelated (last_user_text (r_turns list_section_turn))"
    by code_simp
  then have "relevance_related (relevance_check_node list_section_turn) = Some True"
    by (simp add: relevance_check_node_def)
  moreover have "step (relevance_check_node list_section_turn) = Some []"
    and "seg_param (relevance_check_node list_section_turn) = Some ''camping''"
    by (simp_all add: relevance_check_node_def list_section_turn_def)
  ultimately show ?thesis
    by (simp add: domain_detect_node_def decide_def Let_def INTENTS_def SEGMENTS_def)
qed

text \<open>
  Claim C10. On an on-topic turn whose resubmitted progress is invalid (its section is not one
  of A, B, C, D, or its index is negative or at least the length of the section's slot list),
  \<^verbatim>\<open>script_qna_node\<close> raises nothing: \<^verbatim>\<open>current_question\<close> is \<open>None\<close> and the output is the
  terminal \<open>end\<close> mode. The code does this for every hashable section
  (\<open>script_qna_node_invalid_hashable\<close> above), and fails for the others. The request model
  types the progress as \<^verbatim>\<open>Dict[str, Any]\<close>; for the progress
  \<^verbatim>\<open>{"section": ["A"], "index": 0, "answered": []}\<close>, whose section is not one of A, B, C, D,
  \<^verbatim>\<open>current_question\<close> raises TypeError where it hashes the section, no \<^verbatim>\<open>try\<close> encloses the
  call, and the node raises instead of returning the \<open>end\<close> output.
\<close>

theorem script_qna_node_unhashable_section:
  "domain_isOnTopic list_section_request = Some True \<and>
   script_progress list_section_request =
     Some \<lparr>sect = JList [JStr ''A''], index = 0, answered = {}\<rparr> \<and>
   JList [JStr ''A''] \<notin> set (map JStr flow) \<and>
   current_question \<lparr>sect = JList [JStr ''A''], index = 0, answered = {}\<rparr>
     (get_segment list_section_request) = Inl TypeError \<and>
   script_qna_node nf list_section_request = Inl TypeError"
  by (simp add: list_section_request_def script_qna_node_def current_question_def py_lookup_def
      flow_def Let_def)

subsection \<open>Script engine: keyword jump or linear advance\<close>

lemma sorted_reverse_Nil: "sorted_reverse k xs = [] \<longleftrightarrow> xs = []"
  using length_sort [of k "rev xs"] by (auto simp: sorted_reverse_def simp del: length_sort)

lemma sorted_reverse_head:
  assumes "sorted_reverse k xs = t # rest"
  shows "(\<forall>y\<in>set xs. k y \<le> k t) \<and> (\<exists>ys zs. xs = ys @ t # zs \<and> (\<forall>y\<in>set ys. k y < k t))"
proof -
  let ?s = "sort_key k (rev xs)"
  from assms have s: "?s = rev rest @ [t]"
    by (simp add: sorted_reverse_def rev_swap)
  have "sorted (map k ?s)" by simp
  with s have le_rest: "\<forall>y\<in>set rest. k y \<le> k t"
    by (auto simp: sorted_append)
  have "set xs = set ?s" by simp
  with s have sx: "set xs = insert t (set rest)" by auto
  with le_rest have le: "\<forall>y\<in>set xs. k y \<le> k t" by auto
  have "filter (\<lambda>y. k y = k t) ?s = filter (\<lambda>y. k y = k t) (rev xs)"
    by (rule sort_key_stable)
  then have "rev (filter (\<lambda>y. k y = k t) ?s) = filter (\<lambda>y. k y = k t) xs"
    by (simp add: rev_filter)
  with s have "filter (\<lambda>y. k y = k t) xs = t # filter (\<lambda>y. k y = k t) rest"
    by (simp add: rev_filter)
  then obtain ys zs where "xs = ys @ t # zs" and "\<forall>y\<in>set ys. k y \<noteq> k t"
    by (auto simp: filter_eq_Cons_iff)
  moreover from this le have "\<forall>y\<in>set ys. k y < k t"
    by (auto simp: order_less_le)
  ultimately show ?thesis using le by blast
qed

lemma py_index_nth: "distinct xs \<Longrightarrow> i < length xs \<Longrightarrow> py_index xs (xs ! i) = Some i"
proof (induction xs arbitrary: i)
  case Nil
  then show ?case by simp
next
  case (Cons x xs)
  then show ?case by (cases i) auto
qed

lemma remaining_positions:
  assumes "distinct order"
  shows "remaining p order =
         map ((!) order) (filter (\<lambda>i. index p < int i \<and> order ! i \<notin> answered p) [0..<length order])"
proof -
  have "remaining p order =
        filter (\<lambda>sid. sid \<notin> answered p \<and>
                    (case py_index order sid of None \<Rightarrow> False | Some i \<Rightarrow> int i \<ge> index p + 1))
               (map ((!) order) [0..<length order])"
    by (simp add: remaining_def map_nth)
  also have "\<dots> = map ((!) order)
        (filter (\<lambda>i. index p < int i \<and> order ! i \<notin> answered p) [0..<length order])"
    unfolding filter_map
    by (rule arg_cong [where f = "map ((!) order)"], rule filter_cong)
       (auto simp: py_index_nth [OF assms])
  finally show ?thesis .
qed

lemma section_order_distinct:
  "map_of SECTION_ORDER s = Some order \<Longrightarrow> distinct order \<and> order \<noteq> []"
  by (auto simp: SECTION_ORDER_def A_ORDER_def B_ORDER_def C_ORDER_def D_ORDER_def split: if_splits)


lemma candidate_positions:
  assumes "section_slots (sect p) = order"
  shows "i \<in> set (filter (\<lambda>i. index p < int i \<and> order ! i \<notin> answered p) [0..<length order])
         \<longleftrightarrow> slot_candidate p i"
  using assms by (auto simp: slot_candidate_def)

text \<open>
  Claim C7. For every progress and user text: if some slot of the current section strictly
  after the current index and not in the answered set has a nonzero keyword score,
  \<^verbatim>\<open>choose_next_progress\<close> returns the progress with the index set to the position of the
  highest-scoring such slot, the first in list order among equals; if no such slot scores
  nonzero, its result is that of \<^verbatim>\<open>next_progress\<close> (for an unknown section both raise
  KeyError, for an unhashable one TypeError).
\<close>

theorem choose_next_progress_jump_or_linear:
  "((\<exists>i. slot_candidate p i \<and> 0 < slot_score nf user_text p i) \<longrightarrow>
      (\<exists>j. slot_candidate p j \<and> 0 < slot_score nf user_text p j \<and>
           (\<forall>i. slot_candidate p i \<longrightarrow> slot_score nf user_text p i \<le> slot_score nf user_text p j) \<and>
           (\<forall>i. slot_candidate p i \<and> i < j \<longrightarrow>
                slot_score nf user_text p i < slot_score nf user_text p j) \<and>
           choose_next_progress nf p user_text = Inr (Some (p\<lparr>index := int j\<rparr>)))) \<and>
   ((\<forall>i. slot_candidate p i \<longrightarrow> slot_score nf user_text p i = 0) \<longrightarrow>
      choose_next_progress nf p user_text = next_progress p)"
proof -
  from py_lookup_cases [of "sect p"]
  consider (unhashable) "py_lookup SECTION_ORDER (sect p) = Inl TypeError" "section_slots (sect p) = []"
    | (unknown) "py_lookup SECTION_ORDER (sect p) = Inr None" "section_slots (sect p) = []"
    | (known) k order where "map_of SECTION_ORDER k = Some order"
        "py_lookup SECTION_ORDER (sect p) = Inr (Some order)" "section_slots (sect p) = order"
    by blast
  then show ?thesis
  proof cases
    case unhashable
    then show ?thesis
      by (simp add: slot_candidate_def choose_next_progress_def next_progress_def)
  next
    case unknown
    then show ?thesis
      by (simp add: slot_candidate_def choose_next_progress_def)
  next
    case (known k order)
    note lk = known(2) and og = known(3)
    from known(1) have dist: "distinct order" and ne: "order \<noteq> []"
      using section_order_distinct by blast+
    let ?f = "(!) order"
    let ?k = "score_slot nf user_text"
    let ?is = "filter (\<lambda>i. index p < int i \<and> order ! i \<notin> answered p) [0..<length order]"
    have rem: "remaining p order = map ?f ?is"
      using dist by (rule remaining_positions)
    have cand: "\<And>i. i \<in> set ?is \<longleftrightarrow> slot_candidate p i"
      using og by (rule candidate_positions)
    have sc: "\<And>i. slot_score nf user_text p i = ?k (?f i)"
      by (simp add: slot_score_def og)
    show ?thesis
    proof (cases "sorted_reverse ?k (remaining p order)")
      case Nil
      then have "?is = []"
        using rem by (simp add: sorted_reverse_Nil)
      then have "\<And>i. \<not> slot_candidate p i"
        using cand by (metis empty_iff empty_set)
      moreover have "choose_next_progress nf p user_text = next_progress p"
        using Nil ne by (simp add: choose_next_progress_def lk)
      ultimately show ?thesis by simp
    next
      case (Cons t rest)
      from sorted_reverse_head [OF Cons]
      obtain ys zs where le: "\<forall>y\<in>set (remaining p order). ?k y \<le> ?k t"
        and split: "remaining p order = ys @ t # zs" and lt: "\<forall>y\<in>set ys. ?k y < ?k t"
        by blast
      from split rem obtain is1 j is2 where isp: "?is = is1 @ j # is2"
        and ys: "ys = map ?f is1" and t: "t = ?f j"
        by (auto simp: map_eq_append_conv map_eq_Cons_conv)
      have cj: "slot_candidate p j"
        using isp cand [of j] by simp
      then have jlen: "j < length order"
        by (simp add: slot_candidate_def og)
      have idx: "py_index order t = Some j"
        using dist jlen t by (simp add: py_index_nth)
      have "sorted ?is" by (simp add: sorted_wrt_filter)
      with isp have after: "\<forall>i\<in>set is2. j \<le> i"
        by (simp add: sorted_append)
      have all_le: "\<And>i. slot_candidate p i \<Longrightarrow> ?k (?f i) \<le> ?k t"
        using le rem cand by auto
      have before_lt: "\<And>i. slot_candidate p i \<Longrightarrow> i < j \<Longrightarrow> ?k (?f i) < ?k t"
      proof -
        fix i assume "slot_candidate p i" and "i < j"
        then have "i \<in> set ?is" using cand by simp
        with isp \<open>i < j\<close> after have "i \<in> set is1" by auto
        with lt ys show "?k (?f i) < ?k t" by simp
      qed
      show ?thesis
      proof (cases "0 < ?k t")
        case True
        then have "choose_next_progress nf p user_text = Inr (Some (p\<lparr>index := int j\<rparr>))"
          using Cons ne idx by (simp add: choose_next_progress_def lk)
        with True cj all_le before_lt t show ?thesis
          unfolding sc by (metis not_less_zero neq0_conv)
      next
        case False
        then have "choose_next_progress nf p user_text = next_progress p"
          using Cons ne by (simp add: choose_next_progress_def lk)
        moreover from False all_le have "\<And>i. slot_candidate p i \<Longrightarrow> ?k (?f i) = 0"
          by fastforce
        ultimately show ?thesis
          unfolding sc by (metis less_numeral_extra(3))
      qed
    qed
  qed
qed


theorem choose_next_progress_jump_or_linear_witness:
  "slot_candidate jump_progress 3 \<and> slot_score nf_basic jump_text jump_progress 3 = 2 \<and>
   choose_next_progress nf_basic jump_progress jump_text = Inr (Some (jump_progress\<lparr>index := 3\<rparr>)) \<and>
   choose_next_progress nf_basic jump_progress (u ''ok'') = next_progress jump_progress"
proof -
  have ord: "section_slots (sect jump_progress) = B_ORDER"
    by (simp add: section_slots_def dict_get_def SECTION_ORDER_def jump_progress_def)
  have en: "\<And>i. slot_candidate jump_progress i \<Longrightarrow> i = 1 \<or> i = 2 \<or> i = 3 \<or> i = 4"
    unfolding slot_candidate_def ord by (auto simp: B_ORDER_def jump_progress_def)
  have c3: "slot_candidate jump_progress 3"
    unfolding slot_candidate_def ord by (simp add: B_ORDER_def jump_progress_def)
  have s3: "slot_score nf_basic jump_text jump_progress 3 = 2"
    by code_simp
  have s0: "slot_score nf_basic jump_text jump_progress 1 = 0"
    "slot_score nf_basic jump_text jump_progress 2 = 0"
    "slot_score nf_basic jump_text jump_progress 4 = 0"
    by code_simp+
  have z: "slot_score nf_basic (u ''ok'') jump_progress 1 = 0"
    "slot_score nf_basic (u ''ok'') jump_progress 2 = 0"
    "slot_score nf_basic (u ''ok'') jump_progress 3 = 0"
    "slot_score nf_basic (u ''ok'') jump_progress 4 = 0"
    by code_simp+
  have all0: "\<forall>i. slot_candidate jump_progress i \<longrightarrow> slot_score nf_basic (u ''ok'') jump_progress i = 0"
    using en z by blast
  have some: "\<exists>i. slot_candidate jump_progress i \<and> 0 < slot_score nf_basic jump_text jump_progress i"
    using c3 s3 by auto
  from choose_next_progress_jump_or_linear [of jump_progress nf_basic jump_text] some
  obtain j where cj: "slot_candidate jump_progress j"
    and mx: "\<forall>i. slot_candidate jump_progress i \<longrightarrow>
        slot_score nf_basic jump_text jump_progress i \<le> slot_score nf_basic jump_text jump_progress j"
    and res: "choose_next_progress nf_basic jump_progress jump_text =
        Inr (Some (jump_progress\<lparr>index := int j\<rparr>))"
    by blast
  from mx c3 s3 have "2 \<le> slot_score nf_basic jump_text jump_progress j" by fastforce
  with en [OF cj] s0 have "j = 3" by auto
  with res have "choose_next_progress nf_basic jump_progress jump_text =
      Inr (Some (jump_progress\<lparr>index := 3\<rparr>))" by simp
  moreover from choose_next_progress_jump_or_linear [of jump_progress nf_basic "u ''ok''"] all0
  have "choose_next_progress nf_basic jump_progress (u ''ok'') = next_progress jump_progress"
    by blast
  ultimately show ?thesis using c3 s3 by simp
qed

subsection \<open>Script engine: a complete interview\<close>

text \<open>
  Claim C1. Starting from \<^verbatim>\<open>first_progress\<close> with a fixed segment, every turn answers the
  slot just asked with the text \<open>ok\<close>, which contains no jump keyword. The claim says that
  the 26 slots are asked once each and that the turn after the answer to the last slot of
  section D returns the \<open>end\<close> mode. The code asks the 26 slots in order, but after
  \<^verbatim>\<open>D10_trust\<close> is answered \<^verbatim>\<open>next_progress\<close> returns \<open>None\<close>, the node keeps the progress at
  (D, 9), and the same slot is asked again on that turn and on every later one: the outputs of
  the first request and of 27 answers are the 26 slots followed by \<^verbatim>\<open>D10_trust\<close> twice more.
\<close>

theorem interview_repeats_last_slot:
  "map asked_slot_of (conversation nf_basic first_request (replicate 27 (u ''ok''))) =
   A_ORDER @ B_ORDER @ C_ORDER @ D_ORDER @ [''D10_trust'', ''D10_trust'']"
  by code_simp

text \<open>The turn on which the last slot is answered, in full.\<close>

lemma script_qna_node_last_slot_answered:
  "script_qna_node nf_basic
     \<lparr>turns = [\<lparr>role = ''user'', content = u ''ok''\<rparr>],
      script_progress = Some \<lparr>sect = JStr ''D'', index = 9,
        answered = set (A_ORDER @ B_ORDER @ C_ORDER @ butlast D_ORDER)\<rparr>,
      last_slot = Some ''D10_trust'', param_segment = None, domain_isOnTopic = Some True,
      domain_segment = Some ''camping'', script = None\<rparr> =
   Inr \<lparr>turns = [\<lparr>role = ''user'', content = u ''ok''\<rparr>],
      script_progress = Some \<lparr>sect = JStr ''D'', index = 9,
        answered = set (A_ORDER @ B_ORDER @ C_ORDER @ D_ORDER)\<rparr>,
      last_slot = Some ''D10_trust'', param_segment = None, domain_isOnTopic = Some True,
      domain_segment = Some ''camping'',
      script = Some (Ask (dict_get QUESTIONS ''D10_trust'' []) ''D10_trust'' (JStr ''D'')
        \<lparr>sect = JStr ''D'', index = 9, answered = set (A_ORDER @ B_ORDER @ C_ORDER @ D_ORDER)\<rparr>)\<rparr>"
  by code_simp

subsection \<open>Router: the rule-based segment\<close>

text \<open>
  Claim C8. \<^verbatim>\<open>rule_segment\<close> is a total function of the message (no operation of it can
  raise, and the model has no error case): it returns the segment with the highest
  keyword-substring hit count, ties broken by the priority camping over experience over sports,
  and returns none exactly when no segment keyword matched. In particular a message with one
  camping hit and one experience hit, and no segment with more hits, resolves to camping.
\<close>

theorem rule_segment_highest_count:
  "(rule_segment nf msg = None \<longleftrightarrow>
      segment_hits nf msg ''camping'' = 0 \<and> segment_hits nf msg ''experience'' = 0 \<and>
      segment_hits nf msg ''sports'' = 0) \<and>
   (rule_segment nf msg = Some ''camping'' \<longleftrightarrow>
      0 < segment_hits nf msg ''camping'' \<and>
      segment_hits nf msg ''experience'' \<le> segment_hits nf msg ''camping'' \<and>
      segment_hits nf msg ''sports'' \<le> segment_hits nf msg ''camping'') \<and>
   (rule_segment nf msg = Some ''experience'' \<longleftrightarrow>
      0 < segment_hits nf msg ''experience'' \<and>
      segment_hits nf msg ''camping'' < segment_hits nf msg ''experience'' \<and>
      segment_hits nf msg ''sports'' \<le> segment_hits nf msg ''experience'') \<and>
   (rule_segment nf msg = Some ''sports'' \<longleftrightarrow>
      0 < segment_hits nf msg ''sports'' \<and>
      segment_hits nf msg ''camping'' < segment_hits nf msg ''sports'' \<and>
      segment_hits nf msg ''experience'' < segment_hits nf msg ''sports'') \<and>
   (segment_hits nf msg ''camping'' = 1 \<and> segment_hits nf msg ''experience'' = 1 \<and>
    segment_hits nf msg ''sports'' \<le> 1 \<longrightarrow> rule_segment nf msg = Some ''camping'')"
  by (auto simp: rule_segment_def segment_scores_def SEGMENTS_def tie_order_def dict_get_def
      less_prod_def)

theorem rule_segment_highest_count_witness:
  "segment_hits nf_basic (u ''camp workshop'') ''camping'' = 1 \<and>
   segment_hits nf_basic (u ''camp workshop'') ''experience'' = 1 \<and>
   segment_hits nf_basic (u ''camp workshop'') ''sports'' = 0 \<and>
   rule_segment nf_basic (u ''camp workshop'') = Some ''camping''"
proof -
  have "map (segment_hits nf_basic (u ''camp workshop'')) SEGMENTS = [1, 1, 0]"
    by code_simp
  then have h: "segment_hits nf_basic (u ''camp workshop'') ''camping'' = 1"
    "segment_hits nf_basic (u ''camp workshop'') ''experience'' = 1"
    "segment_hits nf_basic (u ''camp workshop'') ''sports'' = 0"
    by (simp_all add: SEGMENTS_def)
  with rule_segment_highest_count [of nf_basic "u ''camp workshop''"] show ?thesis
    by simp
qed

subsection \<open>Router: the off-topic invariant\<close>

lemma decide_off_topic:
  "\<not> isOnTopic (decide nf zero_shot st) \<Longrightarrow>
   via (decide nf zero_shot st) = ''unrelated'' \<and> confidence (decide nf zero_shot st) \<le> 30 / 100"
  by (simp add: decide_def Let_def)

text \<open>
  Claim C4. In every decision that \<^verbatim>\<open>domain_detect_node\<close> writes (so on every turn that is
  not short-circuited by an explicit routing label), \<open>isOnTopic = False\<close> implies that the
  provenance tag \<open>via\<close> is \<open>unrelated\<close> and that the confidence is at most 0.30, whatever
  the external classifier answers.
\<close>

theorem domain_detect_node_off_topic:
  assumes "domain_out (domain_detect_node nf zero_shot st) = Some (Decision d)"
      and "\<not> isOnTopic d"
  shows "via d = ''unrelated'' \<and> confidence d \<le> 30 / 100"
  using assms decide_off_topic [of nf zero_shot st]
  by (auto simp: domain_detect_node_def split: option.splits if_splits)

theorem domain_detect_node_off_topic_witness:
  "domain_out (domain_detect_node nf_basic (\<lambda>msg hist. None) small_talk_request) =
     Some (Decision \<lparr>intent = ''script_qna'', domain = ''travel'', confidence = 30 / 100,
       subdomain = None, segment = None, via = ''unrelated'', isOnTopic = False,
       onTopicScore = 0\<rparr>)"
proof -
  let ?d = "decide nf_basic (\<lambda>msg hist. None) small_talk_request"
  have 1: "domain_out (domain_detect_node nf_basic (\<lambda>msg hist. None) small_talk_request) =
      Some (Decision ?d)"
    by (simp add: domain_detect_node_def small_talk_request_def)
  have 2: "?d = \<lparr>intent = ''script_qna'', domain = ''travel'', confidence = 30 / 100,
        subdomain = None, segment = None, via = ''unrelated'', isOnTopic = False,
        onTopicScore = 0\<rparr>"
    by code_simp
  then have 3: "\<not> isOnTopic ?d" by simp
  from domain_detect_node_off_topic [OF 1 3] 1 2 show ?thesis
    by simp
qed

subsection \<open>Length governor: malformed caps\<close>

text \<open>
  What holds of the claim's malformed values: a blank or non-numeric string, the boolean
  \<open>False\<close>, zero and a negative integer are replaced by the defaults, 4000 for the character
  cap and no token cap.
\<close>

lemma resolve_caps_malformed_string:
  "strip s = [] \<or> parse_float (strip s) = None \<Longrightarrow>
   resolve_caps parse_float (VStr s) (VStr s) = Inr (4000, None)"
  by (auto simp: resolve_caps_def or_int_def Let_def)

lemma resolve_caps_not_positive:
  "i \<le> 0 \<Longrightarrow> resolve_caps parse_float (VInt i) (VInt i) = Inr (4000, None)"
  by (simp add: resolve_caps_def or_int_def)

lemma resolve_caps_boolean_false:
  "resolve_caps parse_float (VBool False) (VBool False) = Inr (4000, None)"
  by (simp add: resolve_caps_def or_int_def)

text \<open>
  Claim C5. Every malformed value of \<^verbatim>\<open>max_chars\<close> or \<^verbatim>\<open>max_tokens\<close> (a non-numeric or
  blank string, a boolean, zero, a negative number) is coerced to the default, 4000 for the
  character cap and absent for the token cap. The code does not do this for the boolean
  \<open>True\<close>: the branch of \<^verbatim>\<open>_to_int\<close> for booleans, commented as guarding against them,
  returns \<^verbatim>\<open>int(val)\<close>, so the character cap becomes 1 and the token cap becomes 1.
\<close>

theorem resolve_caps_boolean_true:
  "resolve_caps parse_float (VBool True) VNone = Inr (1, None) \<and>
   resolve_caps parse_float VNone (VBool True) = Inr (4000, Some 1)"
  by (simp add: resolve_caps_def or_int_def)

subsection \<open>Length governor: the shape of the payload\<close>


lemma same_shape_trim_value: "same_shape v (trim_value a key v)"
proof (induction v arbitrary: key)
  case (PStr s)
  show ?case by simp
next
  case (PList xs)
  show ?case
  proof (cases "list_all is_PStr xs")
    case True
    then show ?thesis by (simp add: list_all_iff)
  next
    case False
    moreover have "list_all2 same_shape xs (map (trim_value a key) xs)"
      using PList.IH by (simp add: list_all2_map2 list_all2_same)
    ultimately show ?thesis by simp
  qed
next
  case (PDict kvs)
  have "list_all2 (\<lambda>kv kw. if fst kv \<in> SKIP_KEYS then snd kw = snd kv
                         else same_shape (snd kv) (snd kw)) kvs
          (map (\<lambda>kv. (fst kv, if fst kv \<in> SKIP_KEYS then snd kv
                               else trim_value a (Some (fst kv)) (snd kv))) kvs)"
    unfolding list_all2_map2 list_all2_same
  proof
    fix kv assume m: "kv \<in> set kvs"
    have "snd kv \<in> Basic_BNFs.snds kv" by (cases kv) simp
    with m have "same_shape (snd kv) (trim_value a (Some (fst kv)) (snd kv))"
      by (rule PDict.IH)
    then show "if fst kv \<in> SKIP_KEYS
      then snd (fst kv, if fst kv \<in> SKIP_KEYS then snd kv
                        else trim_value a (Some (fst kv)) (snd kv)) = snd kv
      else same_shape (snd kv)
             (snd (fst kv, if fst kv \<in> SKIP_KEYS then snd kv
                           else trim_value a (Some (fst kv)) (snd kv)))"
      by simp
  qed
  then show ?case by (simp add: comp_def)
next
  case (POther x)
  show ?case by simp
qed

text \<open>
  Claim C9. \<^verbatim>\<open>trim_payload\<close> preserves the shape of its input: every dictionary of the
  output has exactly the keys of the corresponding input dictionary, lists map to lists and
  strings to strings, every other value is returned unchanged, and the value of an entry
  whose key is one of the metadata names (relevance, faq, domain) is passed through unmodified.
\<close>

theorem trim_payload_same_shape:
  "same_shape payload (trim_payload payload style max_characters max_tokens tokenizer)"
  by (simp add: trim_payload_def Let_def same_shape_trim_value)

theorem trim_payload_same_shape_witness:
  "same_shape sample_payload (trim_payload sample_payload None 20 None Fallback) \<and>
   trim_payload sample_payload None 20 None Fallback =
     PDict [
       (''answer'', PStr (u ''Plan the trip.'' @ [8230])),
       (''domain'', PDict [(''answer'', PStr (u ''Plan the trip. Then book the tent and the caravan''))]),
       (''score'', POther 7),
       (''items'', PList [PStr (u ''tent''), POther 3, PList [PStr (u ''a''), PStr (u ''b'')]])]"
proof -
  have "trim_payload sample_payload None 20 None Fallback =
     PDict [
       (''answer'', PStr (u ''Plan the trip.'' @ [8230])),
       (''domain'', PDict [(''answer'', PStr (u ''Plan the trip. Then book the tent and the caravan''))]),
       (''score'', POther 7),
       (''items'', PList [PStr (u ''tent''), POther 3, PList [PStr (u ''a''), PStr (u ''b'')]])]"
    by code_simp
  with trim_payload_same_shape [of sample_payload None 20 None Fallback] show ?thesis
    by simp
qed

subsection \<open>Length governor: counting fences, scanning for boundaries\<close>

lemma startswith_iff: "startswith s pat \<longleftrightarrow> (\<exists>r. s = pat @ r)"
  by (induction s pat rule: startswith.induct) auto

lemma py_count_Nil: "pat \<noteq> [] \<Longrightarrow> py_count pat [] = 0"
  by (simp add: py_count.simps)

lemma py_count_Cons:
  "pat \<noteq> [] \<Longrightarrow> py_count pat (c # cs) =
     (if startswith (c # cs) pat then Suc (py_count pat (drop (length pat) (c # cs)))
      else py_count pat cs)"
  by (subst py_count.simps) simp

lemma py_count_step:
  "pat \<noteq> [] \<Longrightarrow> s \<noteq> [] \<Longrightarrow> py_count pat s =
     (if startswith s pat then Suc (py_count pat (drop (length pat) s))
      else py_count pat (tl s))"
  by (subst py_count.simps) simp

lemma py_count_no_char:
  "pat \<noteq> [] \<Longrightarrow> set s \<inter> set pat = {} \<Longrightarrow> py_count pat s = 0"
proof (induction s)
  case Nil
  then show ?case by (simp add: py_count_Nil)
next
  case (Cons c cs)
  then have "\<not> startswith (c # cs) pat"
    by (cases pat) (auto simp: startswith_iff)
  with Cons show ?case by (simp add: py_count_Cons)
qed

lemma append_sep_prefix:
  assumes "xs @ b # ys = pat @ r" and "b \<notin> set pat"
  shows "\<exists>r'. xs = pat @ r'"
proof -
  from assms(1) obtain us where
    "(xs = pat @ us \<and> us @ b # ys = r) \<or> (xs @ us = pat \<and> b # ys = us @ r)"
    by (auto simp: append_eq_append_conv2)
  then show ?thesis
  proof
    assume "xs = pat @ us \<and> us @ b # ys = r"
    then show ?thesis by blast
  next
    assume a: "xs @ us = pat \<and> b # ys = us @ r"
    show ?thesis
    proof (cases us)
      case Nil
      with a show ?thesis by simp
    next
      case (Cons v vs)
      with a have "b \<in> set pat" by auto
      with assms(2) show ?thesis by simp
    qed
  qed
qed

lemma py_count_sep:
  assumes "pat \<noteq> []" and "b \<notin> set pat"
  shows "py_count pat (xs @ b # ys) = py_count pat xs + py_count pat ys"
proof (induction "length xs" arbitrary: xs rule: less_induct)
  case less
  show ?case
  proof (cases xs)
    case Nil
    have "\<not> startswith (b # ys) pat"
      using assms by (cases pat) (auto simp: startswith_iff)
    with Nil assms show ?thesis by (simp add: py_count_Cons py_count_Nil)
  next
    case (Cons c cs)
    show ?thesis
    proof (cases "startswith xs pat")
      case True
      then obtain r where r: "xs = pat @ r" by (auto simp: startswith_iff)
      then have sw: "startswith (xs @ b # ys) pat" by (simp add: startswith_iff)
      from r assms have "length r < length xs" by simp
      then have "py_count pat (r @ b # ys) = py_count pat r + py_count pat ys"
        by (rule less)
      moreover have "py_count pat (xs @ b # ys) = Suc (py_count pat (r @ b # ys))"
        using sw assms(1) by (subst py_count_step) (simp_all add: r)
      moreover have "py_count pat xs = Suc (py_count pat r)"
        using assms(1) by (subst py_count_step) (simp_all add: r startswith_iff)
      ultimately show ?thesis by simp
    next
      case False
      have nsw: "\<not> startswith (xs @ b # ys) pat"
      proof
        assume "startswith (xs @ b # ys) pat"
        then obtain r where "xs @ b # ys = pat @ r" by (auto simp: startswith_iff)
        then have "\<exists>r'. xs = pat @ r'" using assms(2) by (rule append_sep_prefix)
        with False show False by (simp add: startswith_iff)
      qed
      have "length cs < length xs" using Cons by simp
      then have "py_count pat (cs @ b # ys) = py_count pat cs + py_count pat ys"
        by (rule less)
      moreover have "py_count pat (xs @ b # ys) = py_count pat (cs @ b # ys)"
        using nsw assms(1) by (subst py_count_step) (simp_all add: Cons)
      moreover have "py_count pat xs = py_count pat cs"
        using False assms(1) by (subst py_count_step) (simp_all add: Cons)
      ultimately show ?thesis by simp
    qed
  qed
qed

lemma py_count_append_no_char:
  assumes "pat \<noteq> []" and "set ys \<inter> set pat = {}"
  shows "py_count pat (xs @ ys) = py_count pat xs"
proof (cases ys)
  case Nil
  then show ?thesis by simp
next
  case (Cons b bs)
  with assms have "b \<notin> set pat" and "set bs \<inter> set pat = {}" by auto
  with assms(1) Cons show ?thesis
    by (simp add: py_count_sep py_count_no_char)
qed

lemma py_count_short: "pat \<noteq> [] \<Longrightarrow> length s < length pat \<Longrightarrow> py_count pat s = 0"
proof (induction s)
  case Nil
  then show ?case by (simp add: py_count_Nil)
next
  case (Cons c cs)
  then have "\<not> startswith (c # cs) pat"
    by (auto simp: startswith_iff dest: arg_cong [where f = length])
  with Cons show ?case by (simp add: py_count_Cons)
qed

lemma py_count_pos_filter:
  assumes "pat \<noteq> []" and "0 < py_count pat s"
  shows "length (filter P pat) \<le> length (filter P s)"
  using assms
proof (induction s)
  case Nil
  then show ?case by (simp add: py_count_Nil)
next
  case (Cons c cs)
  show ?case
  proof (cases "startswith (c # cs) pat")
    case True
    then obtain r where "c # cs = pat @ r" by (auto simp: startswith_iff)
    then show ?thesis by simp
  next
    case False
    with Cons have "length (filter P pat) \<le> length (filter P cs)"
      by (simp add: py_count_Cons)
    then show ?thesis by simp
  qed
qed

lemma finditer_span:
  assumes "\<And>s. m s \<le> length s" and "(a, b) \<in> set (finditer m i s)"
  shows "i \<le> a \<and> a \<le> b \<and> b \<le> i + length s"
  using assms
proof (induction m i s rule: finditer.induct)
  case (1 m i)
  then show ?case by simp
next
  case (2 m i c cs)
  have le: "m (c # cs) \<le> Suc (length cs)"
    using "2.prems"(1) [of "c # cs"] by simp
  show ?case
  proof (cases "m (c # cs) = 0")
    case True
    with 2 show ?thesis by (auto simp: Let_def)
  next
    case False
    from "2.prems"(2) False have "(a, b) = (i, i + m (c # cs)) \<or>
        (a, b) \<in> set (finditer m (i + m (c # cs)) (drop (m (c # cs)) (c # cs)))"
      by (simp add: Let_def)
    then show ?thesis
    proof
      assume "(a, b) = (i, i + m (c # cs))"
      with le show ?thesis by simp
    next
      assume "(a, b) \<in> set (finditer m (i + m (c # cs)) (drop (m (c # cs)) (c # cs)))"
      with "2.IH"(2) [OF refl False "2.prems"(1)] le show ?thesis by auto
    qed
  qed
qed

lemma m_word_boundary_pos: "m_word_boundary (c # cs) \<noteq> 0 \<longleftrightarrow> word_boundary c"
  by (simp add: m_word_boundary_def)

lemma finditer_word_boundary_start:
  assumes "(a, b) \<in> set (finditer m_word_boundary i s)"
  shows "i \<le> a \<and> a < i + length s \<and> word_boundary (s ! (a - i))"
  using assms
proof (induction m_word_boundary i s rule: finditer.induct)
  case (1 i)
  then show ?case by simp
next
  case (2 i c cs)
  let ?n = "m_word_boundary (c # cs)"
  show ?case
  proof (cases "?n = 0")
    case True
    with 2(3) have "(a, b) \<in> set (finditer m_word_boundary (Suc i) cs)"
      by (simp add: Let_def)
    with 2(1) [OF refl True] have "Suc i \<le> a \<and> a < Suc i + length cs \<and>
        word_boundary (cs ! (a - Suc i))" by simp
    then show ?thesis by (auto simp: nth_Cons')
  next
    case False
    from 2(3) False have "(a, b) = (i, i + ?n) \<or>
        (a, b) \<in> set (finditer m_word_boundary (i + ?n) (drop ?n (c # cs)))"
      by (simp add: Let_def)
    then show ?thesis
    proof
      assume "(a, b) = (i, i + ?n)"
      with False m_word_boundary_pos [of c cs] show ?thesis by simp
    next
      assume mem: "(a, b) \<in> set (finditer m_word_boundary (i + ?n) (drop ?n (c # cs)))"
      with 2(2) [OF refl False]
      have ih: "i + ?n \<le> a" "a < i + ?n + length (drop ?n (c # cs))"
        "word_boundary (drop ?n (c # cs) ! (a - (i + ?n)))" by simp_all
      have nle: "?n \<le> length (c # cs)"
        unfolding m_word_boundary_def by (rule length_takeWhile_le)
      from ih(2) nle have "a < i + length (c # cs)" by simp
      moreover from ih(1,3) nle have "word_boundary ((c # cs) ! (a - i))"
        by (simp add: nth_drop)
      ultimately show ?thesis using ih(1) by simp
    qed
  qed
qed


lemma m_sent_or_end_le: "m_sent_or_end s \<le> length s"
proof (cases s)
  case Nil
  then show ?thesis by (simp add: m_sent_or_end_def)
next
  case (Cons c cs)
  have "\<And>P. length (takeWhile P (c # cs)) \<le> Suc (length cs)"
    using length_takeWhile_le [of _ "c # cs"] by simp
  with Cons show ?thesis
    by (auto simp: m_sent_or_end_def simp del: takeWhile.simps)
qed

lemma m_word_boundary_le: "m_word_boundary s \<le> length s"
  unfolding m_word_boundary_def by (rule length_takeWhile_le)

lemma boundary_cut_le: "boundary_cut snippet \<le> length snippet"
proof -
  have a: "\<And>m ms. rev (finditer m_sent_or_end 0 snippet) = m # ms \<Longrightarrow> snd m \<le> length snippet"
  proof -
    fix m ms assume "rev (finditer m_sent_or_end 0 snippet) = m # ms"
    then have "(fst m, snd m) \<in> set (finditer m_sent_or_end 0 snippet)"
      by (metis list.set_intros(1) prod.collapse set_rev)
    with finditer_span [of m_sent_or_end "fst m" "snd m" 0 snippet] m_sent_or_end_le
    show "snd m \<le> length snippet" by simp
  qed
  have b: "\<And>m ms. rev (finditer m_word_boundary 0 snippet) = m # ms \<Longrightarrow> fst m \<le> length snippet"
  proof -
    fix m ms assume "rev (finditer m_word_boundary 0 snippet) = m # ms"
    then have "(fst m, snd m) \<in> set (finditer m_word_boundary 0 snippet)"
      by (metis list.set_intros(1) prod.collapse set_rev)
    with finditer_span [of m_word_boundary "fst m" "snd m" 0 snippet] m_word_boundary_le
    show "fst m \<le> length snippet" by simp
  qed
  show ?thesis
    using a b by (auto simp: boundary_cut_def split: list.splits)
qed

lemma retreat_le: "retreat text n \<le> n"
  by (induction n) (auto simp: le_SucI)

lemma fence_nonempty: "FENCE_TRIPLE \<noteq> []" "FENCE_TILDES \<noteq> []"
  by (simp_all add: FENCE_TRIPLE_def FENCE_TILDES_def)

lemma retreat_not_inside: "\<not> inside_code_block text (retreat text n)"
  by (induction n) (simp_all add: inside_code_block_def py_count_Nil fence_nonempty)

lemma rstrip_decomp: "\<exists>ws. s = rstrip s @ ws \<and> (\<forall>c\<in>set ws. is_space c)"
proof -
  have "rev s = takeWhile is_space (rev s) @ dropWhile is_space (rev s)" by simp
  then have "s = rev (dropWhile is_space (rev s)) @ rev (takeWhile is_space (rev s))"
    by (metis rev_append rev_rev_ident)
  moreover have "\<forall>c\<in>set (rev (takeWhile is_space (rev s))). is_space c"
    by (auto dest: set_takeWhileD)
  ultimately show ?thesis unfolding rstrip_def by blast
qed

lemma length_rstrip: "length (rstrip s) \<le> length s"
  by (simp add: rstrip_def length_dropWhile_le [of is_space "rev s", simplified])

lemma fence_not_space: "\<not> is_space 96" "\<not> is_space 126"
  by (simp_all add: is_space_def)

lemma py_count_rstrip:
  "py_count FENCE_TRIPLE (rstrip s) = py_count FENCE_TRIPLE s"
  "py_count FENCE_TILDES (rstrip s) = py_count FENCE_TILDES s"
proof -
  obtain ws where ws: "s = rstrip s @ ws" "\<forall>c\<in>set ws. is_space c"
    using rstrip_decomp by blast
  then have "set ws \<inter> set FENCE_TRIPLE = {}" "set ws \<inter> set FENCE_TILDES = {}"
    using fence_not_space by (auto simp: FENCE_TRIPLE_def FENCE_TILDES_def)
  then have "py_count FENCE_TRIPLE (rstrip s @ ws) = py_count FENCE_TRIPLE (rstrip s)"
    "py_count FENCE_TILDES (rstrip s @ ws) = py_count FENCE_TILDES (rstrip s)"
    by (simp_all add: py_count_append_no_char fence_nonempty)
  with ws(1) show "py_count FENCE_TRIPLE (rstrip s) = py_count FENCE_TRIPLE s"
    "py_count FENCE_TILDES (rstrip s) = py_count FENCE_TILDES s"
    by simp_all
qed

lemma length_balance_fences:
  "length (balance_fences x) =
     length x + (if odd (py_count FENCE_TRIPLE x) then 4 else 0) +
     (if odd (py_count FENCE_TILDES x) then 4 else 0)"
proof -
  have "py_count FENCE_TILDES (x @ 10 # FENCE_TRIPLE) = py_count FENCE_TILDES x"
    by (rule py_count_append_no_char) (simp_all add: FENCE_TRIPLE_def FENCE_TILDES_def)
  then show ?thesis
    by (simp add: balance_fences_def Let_def FENCE_TRIPLE_def FENCE_TILDES_def)
qed

lemma balance_fences_even:
  "even (py_count FENCE_TRIPLE x) \<Longrightarrow> even (py_count FENCE_TILDES x) \<Longrightarrow> balance_fences x = x"
  by (simp add: balance_fences_def)

lemma py_in_iff: "py_in pat s \<longleftrightarrow> (\<exists>a r. s = a @ pat @ r)"
proof (induction s)
  case Nil
  then show ?case by auto
next
  case (Cons c cs)
  show ?case
  proof
    assume "py_in pat (c # cs)"
    then consider "startswith (c # cs) pat" | "py_in pat cs" by auto
    then show "\<exists>a r. c # cs = a @ pat @ r"
    proof cases
      case 1
      then obtain r where "c # cs = pat @ r" by (auto simp: startswith_iff)
      then have "c # cs = [] @ pat @ r" by simp
      then show ?thesis by blast
    next
      case 2
      with Cons obtain a r where "cs = a @ pat @ r" by blast
      then have "c # cs = (c # a) @ pat @ r" by simp
      then show ?thesis by blast
    qed
  next
    assume "\<exists>a r. c # cs = a @ pat @ r"
    then obtain a r where ar: "c # cs = a @ pat @ r" by blast
    show "py_in pat (c # cs)"
    proof (cases a)
      case Nil
      with ar have "startswith (c # cs) pat" by (simp add: startswith_iff)
      then show ?thesis by simp
    next
      case (Cons a1 as)
      with ar have "cs = as @ pat @ r" by simp
      with Cons.IH show ?thesis by auto
    qed
  qed
qed

lemma link_token_char:
  assumes "list_ex (\<lambda>tok. py_in tok w) LINK_TOKENS"
  shows "\<exists>x\<in>set w. x \<noteq> 96 \<and> x \<noteq> 126"
proof -
  from assms obtain tok where "tok \<in> set LINK_TOKENS" and "py_in tok w"
    by (auto simp: list_ex_iff)
  then have sub: "set tok \<subseteq> set w" and "58 \<in> set tok \<or> 93 \<in> set tok"
    by (auto simp: py_in_iff LINK_TOKENS_def u_def)
  then obtain x where "x \<in> set tok" and x: "x = 58 \<or> x = 93" by blast
  with sub have "x \<in> set w" by blast
  moreover from x have "x \<noteq> 96 \<and> x \<noteq> 126" by auto
  ultimately show ?thesis by blast
qed

lemma backoff_cases:
  "backoff_link_boundary text c = c \<or>
   (list_ex (\<lambda>tok. py_in tok (drop (c - 6) (take c text))) LINK_TOKENS \<and>
    (\<exists>b. (backoff_link_boundary text c, b) \<in> set (finditer m_word_boundary 0 (take c text))))"
proof (cases "list_ex (\<lambda>tok. py_in tok (drop (c - 6) (take c text))) LINK_TOKENS")
  case False
  then show ?thesis by (simp add: backoff_link_boundary_def)
next
  case True
  show ?thesis
  proof (cases "rev (finditer m_word_boundary 0 (take c text))")
    case Nil
    with True show ?thesis by (simp add: backoff_link_boundary_def)
  next
    case (Cons m ms)
    then have "m \<in> set (finditer m_word_boundary 0 (take c text))"
      by (metis list.set_intros(1) set_rev)
    moreover have "backoff_link_boundary text c = fst m"
      using True Cons by (simp add: backoff_link_boundary_def)
    ultimately show ?thesis using True by (metis prod.collapse)
  qed
qed

lemma short_prefix_balanced:
  "even (py_count FENCE_TRIPLE (take 1 text)) \<and> even (py_count FENCE_TILDES (take 1 text))"
proof -
  have "length (take 1 text) < 3" by simp
  then show ?thesis
    by (simp add: py_count_short FENCE_TRIPLE_def FENCE_TILDES_def)
qed

lemma balanced_cut_length:
  assumes "even (py_count FENCE_TRIPLE (take c text))" and "even (py_count FENCE_TILDES (take c text))"
  shows "length (balance_fences (rstrip (take c text))) \<le> c"
proof -
  have "balance_fences (rstrip (take c text)) = rstrip (take c text)"
    using assms by (simp add: balance_fences_even py_count_rstrip)
  moreover have "length (rstrip (take c text)) \<le> c"
    using length_rstrip [of "take c text"] by simp
  ultimately show ?thesis by simp
qed

lemma word_boundary_not_fence: "word_boundary b \<Longrightarrow> b \<noteq> 96 \<and> b \<noteq> 126"
  by (auto simp: word_boundary_def is_space_def)

lemma filter_three_way:
  "length (filter (\<lambda>c. c = (96::int)) r) + length (filter (\<lambda>c. c = 126) r) +
   length (filter (\<lambda>c. c \<noteq> 96 \<and> c \<noteq> 126) r) = length r"
  by (induction r) auto

lemma cut_length:
  assumes ni: "\<not> inside_code_block text c1" and c1: "c1 \<le> cap" and cap: "1 \<le> cap"
    and len: "cap \<le> length text"
  shows "length (balance_fences (rstrip (take (max 1 (min (backoff_link_boundary text c1) cap)) text)))
         \<le> cap"
proof -
  let ?s = "backoff_link_boundary text c1"
  let ?t = "take c1 text"
  have lt: "length ?t = c1" using c1 len by simp
  from ni have ev: "even (py_count FENCE_TRIPLE ?t)" "even (py_count FENCE_TILDES ?t)"
    by (simp_all add: inside_code_block_def)
  have one: "length (balance_fences (rstrip (take 1 text))) \<le> cap"
    using balanced_cut_length [of 1 "text"] short_prefix_balanced [of "text"] cap by simp
  from backoff_cases [of "text" c1] show ?thesis
  proof
    assume same: "?s = c1"
    show ?thesis
    proof (cases "c1 = 0")
      case True
      with same one show ?thesis by simp
    next
      case False
      with same c1 have "max 1 (min ?s cap) = c1" by simp
      with balanced_cut_length [OF ev] c1 show ?thesis by simp
    qed
  next
    assume "list_ex (\<lambda>tok. py_in tok (drop (c1 - 6) ?t)) LINK_TOKENS \<and>
      (\<exists>b. (?s, b) \<in> set (finditer m_word_boundary 0 ?t))"
    then obtain b where link: "list_ex (\<lambda>tok. py_in tok (drop (c1 - 6) ?t)) LINK_TOKENS"
      and span: "(?s, b) \<in> set (finditer m_word_boundary 0 ?t)" by blast
    from finditer_word_boundary_start [OF span] lt
    have s_lt: "?s < c1" by simp
    from finditer_word_boundary_start [OF span]
    have wb: "word_boundary (?t ! ?s)" by (simp del: nth_take)
    show ?thesis
    proof (cases "?s = 0")
      case True
      with one show ?thesis by simp
    next
      case False
      with s_lt c1 have cut: "max 1 (min ?s cap) = ?s" by simp
      let ?r = "drop (Suc ?s) ?t"
      have split: "?t = take ?s text @ ?t ! ?s # ?r"
        using id_take_nth_drop [of ?s ?t] s_lt lt by (simp add: min_def)
      have lr: "Suc ?s + length ?r = c1" using s_lt lt by simp
      from wb have nf: "?t ! ?s \<notin> set FENCE_TRIPLE" "?t ! ?s \<notin> set FENCE_TILDES"
        using word_boundary_not_fence by (auto simp: FENCE_TRIPLE_def FENCE_TILDES_def)
      have c3: "py_count FENCE_TRIPLE ?t =
          py_count FENCE_TRIPLE (take ?s text) + py_count FENCE_TRIPLE ?r"
        by (subst split) (rule py_count_sep [OF fence_nonempty(1) nf(1)])
      have c4: "py_count FENCE_TILDES ?t =
          py_count FENCE_TILDES (take ?s text) + py_count FENCE_TILDES ?r"
        by (subst split) (rule py_count_sep [OF fence_nonempty(2) nf(2)])
      let ?a = "if odd (py_count FENCE_TRIPLE (take ?s text)) then 4 else (0::nat)"
      let ?b = "if odd (py_count FENCE_TILDES (take ?s text)) then 4 else (0::nat)"
      have lb: "length (balance_fences (rstrip (take ?s text))) \<le> ?s + ?a + ?b"
        using length_rstrip [of "take ?s text"]
        by (simp add: length_balance_fences py_count_rstrip)
      have n3: "3 \<le> length (filter (\<lambda>c. c = 96) ?r)"
        if "odd (py_count FENCE_TRIPLE (take ?s text))"
      proof -
        from that ev(1) c3 have "0 < py_count FENCE_TRIPLE ?r" by (cases "py_count FENCE_TRIPLE ?r") auto
        from py_count_pos_filter [OF fence_nonempty(1) this, of "\<lambda>c. c = 96"]
        show ?thesis by (simp add: FENCE_TRIPLE_def)
      qed
      have n4: "3 \<le> length (filter (\<lambda>c. c = 126) ?r)"
        if "odd (py_count FENCE_TILDES (take ?s text))"
      proof -
        from that ev(2) c4 have "0 < py_count FENCE_TILDES ?r" by (cases "py_count FENCE_TILDES ?r") auto
        from py_count_pos_filter [OF fence_nonempty(2) this, of "\<lambda>c. c = 126"]
        show ?thesis by (simp add: FENCE_TILDES_def)
      qed
      have n5: "1 \<le> length (filter (\<lambda>c. c \<noteq> 96 \<and> c \<noteq> 126) ?r)"
        if "6 \<le> length ?r"
      proof -
        from that lr have "c1 - 6 = (c1 - 6 - Suc ?s) + Suc ?s" by linarith
        then have "drop (c1 - 6) ?t = drop (c1 - 6 - Suc ?s) ?r"
          by (metis drop_drop)
        then have "set (drop (c1 - 6) ?t) \<subseteq> set ?r"
          by (metis set_drop_subset)
        with link_token_char [OF link] obtain x where "x \<in> set ?r" "x \<noteq> 96 \<and> x \<noteq> 126"
          by blast
        then have "filter (\<lambda>c. c \<noteq> 96 \<and> c \<noteq> 126) ?r \<noteq> []"
          by (auto simp: filter_empty_conv)
        then show ?thesis by (cases "filter (\<lambda>c. c \<noteq> 96 \<and> c \<noteq> 126) ?r") simp_all
      qed
      have "?s + ?a + ?b \<le> c1"
      proof (cases "odd (py_count FENCE_TRIPLE (take ?s text))")
        case o3: True
        show ?thesis
        proof (cases "odd (py_count FENCE_TILDES (take ?s text))")
          case o4: True
          from n3 [OF o3] n4 [OF o4] filter_three_way [of ?r] have "6 \<le> length ?r"
            by linarith
          from n5 [OF this] n3 [OF o3] n4 [OF o4] filter_three_way [of ?r]
          have "7 \<le> length ?r" by linarith
          with lr o3 o4 show ?thesis by simp
        next
          case e4: False
          from n3 [OF o3] filter_three_way [of ?r] have "3 \<le> length ?r" by linarith
          with lr o3 e4 show ?thesis by simp
        qed
      next
        case e3: False
        show ?thesis
        proof (cases "odd (py_count FENCE_TILDES (take ?s text))")
          case o4: True
          from n4 [OF o4] filter_three_way [of ?r] have "3 \<le> length ?r" by linarith
          with lr e3 o4 show ?thesis by simp
        next
          case e4: False
          with lr e3 show ?thesis by simp
        qed
      qed
      with lb cut c1 show ?thesis by simp
    qed
  qed
qed

subsection \<open>Length governor: the length of a cut text\<close>

text \<open>
  For a cap of at least one character, a text longer than the cap comes back with at most
  cap + 1 characters, the ellipsis and any closing fence included: when the link back-off
  moves the cut into a fenced block, the closing fence that is appended is no longer than
  what the back-off removed.
\<close>

lemma soft_cut_idx_cap:
  assumes "0 \<le> max_chars" and "max_chars < int (length t)"
  shows "soft_cut_idx t max_chars =
         max 1 (min (backoff_link_boundary t (retreat t (boundary_cut (take (nat max_chars) t))))
                    (nat max_chars))"
proof -
  have "length (take (nat max_chars) t) = nat max_chars"
    using assms by simp
  then show ?thesis
    using assms(1) by (simp add: soft_cut_idx_def py_take_def Let_def del: length_take)
qed

lemma soft_cut_length:
  assumes "1 \<le> max_chars" and "max_chars < int (length t)"
  shows "int (length (soft_cut t max_chars True)) \<le> max_chars + 1"
proof -
  let ?cap = "nat max_chars"
  let ?c1 = "retreat t (boundary_cut (take ?cap t))"
  have "boundary_cut (take ?cap t) \<le> ?cap"
    using boundary_cut_le [of "take ?cap t"] assms by simp
  then have c1: "?c1 \<le> ?cap"
    using retreat_le [of t "boundary_cut (take ?cap t)"] by simp
  have ni: "\<not> inside_code_block t ?c1" by (rule retreat_not_inside)
  have "length (balance_fences (rstrip (take (max 1 (min (backoff_link_boundary t ?c1) ?cap)) t)))
        \<le> ?cap"
    using ni c1 assms by (intro cut_length) simp_all
  then have "length (balance_fences (rstrip (take (soft_cut_idx t max_chars) t))) \<le> ?cap"
    using assms by (simp add: soft_cut_idx_cap)
  with assms show ?thesis
    by (simp add: soft_cut_def Let_def)
qed

lemma enforce_char_cap_long:
  assumes "1 \<le> max_chars" and "max_chars < int (length t)"
  shows "int (length (enforce_char_cap t max_chars False)) \<le> max_chars + 1"
  using assms soft_cut_length [OF assms] by (simp add: enforce_char_cap_def)

lemma enforce_char_cap_short:
  assumes "int (length t) \<le> max_chars"
  shows "enforce_char_cap t max_chars is_code = balance_fences t"
    and "length (enforce_char_cap t max_chars is_code) \<le> length t + 8"
  using assms by (simp_all add: enforce_char_cap_def length_balance_fences)

lemma trim_bullets:
  "trim_payload (PDict [(''bullets'', PList (map PStr xs))]) style max_characters max_tokens tokenizer =
   PDict [(''bullets'', PList (map PStr (enforce_bullets xs 250 7 True)))]"
proof -
  have "list_all is_PStr (map PStr xs :: 'a payload list)"
    by (simp add: list_all_iff)
  moreover have "map str_of (map PStr xs :: 'a payload list) = xs"
    by (simp add: comp_def)
  moreover have "trim_str_list a (Some ''bullets'') xs = enforce_bullets xs 250 7 True" for a
    by (simp add: trim_str_list_def policy_of_def dict_get_def KEY_POLICY_def list_policy_def)
  ultimately show ?thesis
    by (simp add: trim_payload_def Let_def SKIP_KEYS_def)
qed

lemma digits_1: "digits (Suc 0) = [49]"
  by (simp add: digits.simps)

subsection \<open>Length governor: the cut point and fenced blocks\<close>

text \<open>
  Claim C2. For every text longer than the cap, the result of \<^verbatim>\<open>enforce_char_cap\<close> has at
  most cap + 1 characters (\<open>soft_cut_length\<close> above, for a cap of at least 1), and the cut
  point is never inside an unclosed fenced block: the number of fences before it is even. The
  second half fails on the code. Step 3 of \<^verbatim>\<open>soft_cut\<close> retreats out of a fenced block, but
  step 4, the link back-off, then moves the cut to the nearest word boundary before it without
  looking at the fences again. For the 14 characters of \<open>fenced_link_text\<close> and a cap of 12
  the cut lands at index 3, right after the opening fence, with one fence before it.
\<close>

theorem soft_cut_inside_fence:
  "length fenced_link_text = 14 \<and>
   soft_cut_idx fenced_link_text 12 = 3 \<and>
   py_count FENCE_TRIPLE (take 3 fenced_link_text) = 1 \<and>
   inside_code_block fenced_link_text (soft_cut_idx fenced_link_text 12) \<and>
   enforce_char_cap fenced_link_text 12 False = FENCE_TRIPLE @ [10] @ FENCE_TRIPLE @ [8230]"
  by code_simp

theorem soft_cut_inside_fence_witness:
  "py_count FENCE_TRIPLE (take (soft_cut_idx fenced_link_text 12) fenced_link_text) = 1"
  using soft_cut_inside_fence by simp

subsection \<open>Length governor: the bullets example\<close>

text \<open>
  The example of claim C6 as it is stated, with at most 250 characters for every content
  entry, fails: the 300-character bullet is cut to 250 characters and the ellipsis is appended,
  which makes 251.
\<close>

theorem bullets_entry_exceeds_cap:
  "trim_payload (PDict [(''bullets'', PList (map PStr eight_bullets))] :: unit payload)
     None 4000 None Fallback =
   PDict [(''bullets'', PList (map PStr
     ((replicate 250 97 @ [8230]) # replicate 6 (u ''b'') @
      [[8230, 32, 40, 43, 49, 32, 109, 111, 114, 101, 41]])))] \<and>
   length (replicate 250 (97::int) @ [8230]) = 251"
  by code_simp

text \<open>
  Claim C6, amended. For the payload \<^verbatim>\<open>{"bullets": [eight strings]}\<close>, whatever the style and
  the caps, the output list has exactly 7 content entries followed by the marker entry
  \<^verbatim>\<open>(+1 more)\<close> with its leading ellipsis. Content entry \<open>i\<close> is the input entry \<open>i\<close> under
  a character cap of 250: an entry longer than 250 characters, such as the one of 300, comes
  back with at most 251 characters (250 and the ellipsis), and an entry of at most 250
  characters is kept, with a closing fence appended for each kind of unbalanced fence (at most
  8 characters more).
\<close>

theorem bullets_example_amended:
  assumes "length xs = 8"
  shows "\<exists>out. trim_payload (PDict [(''bullets'', PList (map PStr xs))]) style max_characters
                 max_tokens tokenizer = PDict [(''bullets'', PList (map PStr out))] \<and>
          length out = 8 \<and>
          out ! 7 = [8230, 32, 40, 43, 49, 32, 109, 111, 114, 101, 41] \<and>
          (\<forall>i<7. out ! i = enforce_char_cap (xs ! i) 250 False \<and>
                  (250 < length (xs ! i) \<longrightarrow> length (out ! i) \<le> 251) \<and>
                  (length (xs ! i) \<le> 250 \<longrightarrow>
                     out ! i = balance_fences (xs ! i) \<and> length (out ! i) \<le> length (xs ! i) + 8))"
proof -
  let ?f = "\<lambda>s. enforce_char_cap s 250 False"
  let ?out = "enforce_bullets xs 250 7 True"
  have out: "?out = map ?f (take 7 xs) @ [more_marker 1]"
    using assms by (simp add: enforce_bullets_def py_take_def Let_def)
  have len: "length ?out = 8" using assms by (simp add: out)
  have last: "?out ! 7 = [8230, 32, 40, 43, 49, 32, 109, 111, 114, 101, 41]"
    using assms by (simp add: out nth_append more_marker_def digits_1 u_def)
  have each: "?out ! i = ?f (xs ! i) \<and>
      (250 < length (xs ! i) \<longrightarrow> length (?out ! i) \<le> 251) \<and>
      (length (xs ! i) \<le> 250 \<longrightarrow>
         ?out ! i = balance_fences (xs ! i) \<and> length (?out ! i) \<le> length (xs ! i) + 8)"
    if "i < 7" for i
  proof -
    from that assms have e: "?out ! i = ?f (xs ! i)"
      by (simp add: out nth_append)
    have "length (?f (xs ! i)) \<le> 251" if "250 < length (xs ! i)"
      using enforce_char_cap_long [of 250 "xs ! i"] that by simp
    moreover have "?f (xs ! i) = balance_fences (xs ! i) \<and>
        length (?f (xs ! i)) \<le> length (xs ! i) + 8" if "length (xs ! i) \<le> 250"
      using enforce_char_cap_short [of "xs ! i" 250 False] that by simp
    ultimately show ?thesis using e by metis
  qed
  show ?thesis
    using trim_bullets [of xs style max_characters max_tokens tokenizer] len last each
    by blast
qed

theorem bullets_example_amended_witness:
  "length eight_bullets = 8 \<and> length (eight_bullets ! 0) = 300 \<and>
   (\<exists>out. trim_payload (PDict [(''bullets'', PList (map PStr eight_bullets))] :: unit payload)
             None 4000 None Fallback = PDict [(''bullets'', PList (map PStr out))] \<and>
          length out = 8 \<and> length (out ! 0) \<le> 251 \<and>
          out ! 7 = [8230, 32, 40, 43, 49, 32, 109, 111, 114, 101, 41])"
proof -
  have l: "length eight_bullets = 8" and h: "length (eight_bullets ! 0) = 300"
    by (simp_all add: eight_bullets_def)
  from bullets_example_amended [OF l, of None 4000 None Fallback]
  obtain out where o: "trim_payload (PDict [(''bullets'', PList (map PStr eight_bullets))] :: unit payload)
             None 4000 None Fallback = PDict [(''bullets'', PList (map PStr out))]"
    "length out = 8" "out ! 7 = [8230, 32, 40, 43, 49, 32, 109, 111, 114, 101, 41]"
    "\<forall>i<7. out ! i = enforce_char_cap (eight_bullets ! i) 250 False \<and>
                  (250 < length (eight_bullets ! i) \<longrightarrow> length (out ! i) \<le> 251) \<and>
                  (length (eight_bullets ! i) \<le> 250 \<longrightarrow>
                     out ! i = balance_fences (eight_bullets ! i) \<and>
                     length (out ! i) \<le> length (eight_bullets ! i) + 8)"
    by blast
  from o(4) have "250 < length (eight_bullets ! 0) \<longrightarrow> length (out ! 0) \<le> 251"
    by (metis zero_less_numeral)
  with h have "length (out ! 0) \<le> 251" by simp
  with o l h show ?thesis by blast
qed

subsection \<open>Length governor: a closing fence after a cut\<close>










subsection \<open>Length governor: trimming a trimmed text\<close>
















subsection \<open>Length governor: trimming twice\<close>














text \<open>
  Three of these inputs in full: what the first and the second application return.
\<close>

lemma trim_payload_twice_examples:
  "trim_payload open_fence None 3 None Fallback =
     PDict [(''answer'', PStr (FENCE_TRIPLE @ 10 # FENCE_TRIPLE))]"
  "trim_payload (PDict [(''answer'', PStr (FENCE_TRIPLE @ 10 # FENCE_TRIPLE))] :: unit payload)
     None 3 None Fallback = PDict [(''answer'', PStr [96, 96, 8230])]"
  "trim_payload open_fence_line None 4000 (Some 2) Fallback =
     PDict [(''answer'', PStr (97 # 10 # FENCE_TRIPLE @ 10 # FENCE_TRIPLE))]"
  "trim_payload (PDict [(''answer'', PStr (97 # 10 # FENCE_TRIPLE @ 10 # FENCE_TRIPLE))] :: unit payload)
     None 4000 (Some 2) Fallback = PDict [(''answer'', PStr (97 # 32 # FENCE_TRIPLE @ 10 # FENCE_TRIPLE))]"
  "trim_payload blank_start None 0 None Fallback = PDict [(''answer'', PStr [8230])]"
  "trim_payload (PDict [(''answer'', PStr [8230])] :: unit payload) None 0 None Fallback =
     PDict [(''answer'', PStr [8230, 8230])]"
  by code_simp+



end
